theory Spec2Isabelle
  imports Main
begin

section \<open>Data model\<close>

text \<open>
  The notification digest engine of the status-sharing application: the job queue
  (\<^verbatim>\<open>jobs/queue\<close>), the digest jobs (\<^verbatim>\<open>jobs/digest.job.ts\<close>), the scheduler
  (\<^verbatim>\<open>jobs/scheduler.ts\<close>) and the public subscribe route.

  Rows are records, tables are lists of rows in table order. Primary keys (uuid columns
  with \<^verbatim>\<open>defaultRandom()\<close>) are natural numbers drawn from a counter of the world.
  A timestamp is the number of milliseconds since the Unix epoch, as in a JavaScript
  \<^verbatim>\<open>Date\<close>.
\<close>

type_synonym uuid = nat
type_synonym timestamp = int

text \<open>\<^verbatim>\<open>JobStatus = 'pending' | 'processing' | 'completed' | 'failed'\<close>\<close>

datatype job_status = Pending | Processing | Completed | Failed

text \<open>
  \<^verbatim>\<open>JobType\<close> together with \<^verbatim>\<open>JobPayload[T]\<close>: \<^verbatim>\<open>enqueueJob<T>\<close> writes the two
  columns together and its signature ties the shape of the payload to the type.
  \<open>InstantDigest projectId updateId subscriberIds\<close>, \<open>DailyDigest projectId\<close>,
  \<open>WeeklyDigest projectId\<close>. The column \<^verbatim>\<open>type\<close> is a varchar, and
  \<^verbatim>\<open>processJob\<close> has a default branch for any other string: \<open>OtherJob\<close>.
\<close>

datatype job_type =
    InstantDigest uuid uuid "uuid list"
  | DailyDigest uuid
  | WeeklyDigest uuid
  | OtherJob string

record job =
  job_id :: uuid
  job_type :: job_type
  status :: job_status
  attempts :: nat
  scheduledFor :: timestamp
  job_createdAt :: timestamp

record subscription =
  sub_id :: uuid
  sub_projectId :: uuid
  email :: string
  frequency :: string
  lastSentAt :: "timestamp option"
  sub_createdAt :: timestamp

record update_row =
  upd_id :: uuid
  upd_projectId :: uuid
  content :: string
  upd_createdAt :: timestamp

record image =
  img_id :: uuid
  img_updateId :: uuid

record link =
  link_id :: uuid
  link_updateId :: uuid
  url :: string

text \<open>Of a project, the columns the digest engine reads (the branding columns are only
  handed on to the templates).\<close>

record project =
  proj_id :: uuid
  proj_name :: string
  magicLinkToken :: "string option"

text \<open>\<^verbatim>\<open>UpdateWithMedia\<close>: an update with its images and links attached.\<close>

record updateWithMedia =
  uwm_update :: update_row
  uwm_images :: "image list"
  uwm_links :: "link list"

text \<open>
  The e-mail templates are pure functions of their data; a message is modelled by the
  data it is rendered from: the recipient and, by kind, the update, the updates (and the
  displayed week), or the confirmed frequency.
\<close>

datatype mail =
    InstantUpdateMail string updateWithMedia
  | DailyDigestMail string "updateWithMedia list"
  | WeeklyDigestMail string "updateWithMedia list" timestamp timestamp
  | SubscriptionConfirmedMail string string

fun mail_to :: "mail \<Rightarrow> string" where
  "mail_to (InstantUpdateMail a u) = a"
| "mail_to (DailyDigestMail a us) = a"
| "mail_to (WeeklyDigestMail a us s t) = a"
| "mail_to (SubscriptionConfirmedMail a f) = a"

fun mail_updates :: "mail \<Rightarrow> updateWithMedia list" where
  "mail_updates (InstantUpdateMail a u) = [u]"
| "mail_updates (DailyDigestMail a us) = us"
| "mail_updates (WeeklyDigestMail a us s t) = us"
| "mail_updates (SubscriptionConfirmedMail a f) = []"

text \<open>
  The world: the tables, the log of the messages handed to \<^verbatim>\<open>sendEmail\<close>, each with
  the \<^verbatim>\<open>success\<close> it returned, and the wall clock. \<open>reads\<close> counts the readings of
  the clock so far.
\<close>

record world =
  subscriptions :: "subscription list"
  updates :: "update_row list"
  images :: "image list"
  links :: "link list"
  projects :: "project list"
  jobQueue :: "job list"
  mail_log :: "(mail \<times> bool) list"
  clock :: timestamp
  reads :: nat
  next_uuid :: uuid

text \<open>
  What one call of an operation meets outside the program:
  \<^item> \<open>db_up\<close>: whether the database answers during the call; when it does not, every
    query of the call rejects (the connectivity failure of the specification);
  \<^item> \<open>resend_api_key\<close>: whether \<^verbatim>\<open>env.RESEND_API_KEY\<close> is configured;
  \<^item> \<open>resend_ok\<close>: whether the e-mail provider accepts a given message;
  \<^item> \<open>elapse\<close>: by how many milliseconds the clock has advanced at its n-th reading
    since the reading before. The clock never runs backwards.
\<close>

record env =
  db_up :: bool
  resend_api_key :: bool
  resend_ok :: "mail \<Rightarrow> bool"
  elapse :: "nat \<Rightarrow> nat"

datatype error =
    DbUnavailable
  | ProjectNotFound uuid
  | UpdateNotFound uuid
  | UnknownJobType string

text \<open>An awaited call either returns a value or rejects with an error; the world it
  leaves behind is returned beside the outcome in both cases.\<close>

datatype 'a outcome = Returned 'a | Threw error

text \<open>\<^verbatim>\<open>new Date()\<close> and \<^verbatim>\<open>Date.now()\<close>, and \<^verbatim>\<open>now()\<close> of the database.\<close>

definition new_Date :: "env \<Rightarrow> world \<Rightarrow> timestamp \<times> world" where
  "new_Date e w =
     (let t = clock w + int (elapse e (reads w))
      in (t, w\<lparr>clock := t, reads := Suc (reads w)\<rparr>))"

section \<open>Job queue\<close>

definition MAX_ATTEMPTS :: nat where
  "MAX_ATTEMPTS = 3"

text \<open>
  \<^verbatim>\<open>enqueueJob(type, payload, scheduledFor?)\<close>: inserts a pending job with no attempts,
  scheduled for \<^verbatim>\<open>scheduledFor || new Date()\<close>; \<^verbatim>\<open>created_at\<close> defaults to
  \<^verbatim>\<open>now()\<close>.
\<close>

definition enqueueJob :: "env \<Rightarrow> job_type \<Rightarrow> timestamp option \<Rightarrow> world \<Rightarrow> job outcome \<times> world" where
  "enqueueJob e ty scheduled w =
     (let (sf, w1) = (case scheduled of Some s \<Rightarrow> (s, w) | None \<Rightarrow> new_Date e w)
      in if \<not> db_up e then (Threw DbUnavailable, w1)
         else
           let (created, w2) = new_Date e w1;
               j = \<lparr>job_id = next_uuid w2, job_type = ty, status = Pending, attempts = 0,
                    scheduledFor = sf, job_createdAt = created\<rparr>
           in (Returned j, w2\<lparr>jobQueue := jobQueue w2 @ [j], next_uuid := Suc (next_uuid w2)\<rparr>))"

text \<open>\<^verbatim>\<open>getPendingJobs(limit)\<close>: the query has no ORDER BY; rows come in table order.\<close>

definition getPendingJobs :: "env \<Rightarrow> nat \<Rightarrow> world \<Rightarrow> job list outcome \<times> world" where
  "getPendingJobs e limit w =
     (let (now, w1) = new_Date e w
      in if \<not> db_up e then (Threw DbUnavailable, w1)
         else (Returned (take limit
                 (filter (\<lambda>j. status j = Pending \<and> scheduledFor j \<le> now) (jobQueue w1))), w1))"

definition markJobProcessing :: "env \<Rightarrow> uuid \<Rightarrow> world \<Rightarrow> unit outcome \<times> world" where
  "markJobProcessing e jobId w =
     (if \<not> db_up e then (Threw DbUnavailable, w)
      else (Returned (),
            w\<lparr>jobQueue := map (\<lambda>j. if job_id j = jobId
                                   then j\<lparr>status := Processing, attempts := attempts j + 1\<rparr>
                                   else j) (jobQueue w)\<rparr>))"

definition markJobCompleted :: "env \<Rightarrow> uuid \<Rightarrow> world \<Rightarrow> unit outcome \<times> world" where
  "markJobCompleted e jobId w =
     (if \<not> db_up e then (Threw DbUnavailable, w)
      else (Returned (),
            w\<lparr>jobQueue := map (\<lambda>j. if job_id j = jobId then j\<lparr>status := Completed\<rparr> else j)
                              (jobQueue w)\<rparr>))"

text \<open>
  \<^verbatim>\<open>markJobFailed(jobId, error)\<close>: selects the job; returns when there is none;
  otherwise writes \<^verbatim>\<open>newAttempts = attempts + 1\<close>, the status \<^verbatim>\<open>failed\<close> when
  \<^verbatim>\<open>newAttempts >= MAX_ATTEMPTS\<close> and \<^verbatim>\<open>pending\<close> otherwise, and, only for
  \<^verbatim>\<open>pending\<close>, \<^verbatim>\<open>scheduledFor = Date.now() + newAttempts * newAttempts * 60 * 1000\<close>
  (an \<^verbatim>\<open>undefined\<close> value leaves the column as it is). The error text, the second
  argument of the source, is only logged and is left out.
\<close>

definition markJobFailed :: "env \<Rightarrow> uuid \<Rightarrow> world \<Rightarrow> unit outcome \<times> world" where
  "markJobFailed e jobId w =
     (if \<not> db_up e then (Threw DbUnavailable, w)
      else case find (\<lambda>j. job_id j = jobId) (jobQueue w) of
        None \<Rightarrow> (Returned (), w)
      | Some jb \<Rightarrow>
          let newAttempts = attempts jb + 1;
              newStatus = (if newAttempts \<ge> MAX_ATTEMPTS then Failed else Pending)
          in if newStatus = Pending
             then let (now, w1) = new_Date e w
                  in (Returned (),
                      w1\<lparr>jobQueue := map (\<lambda>j. if job_id j = jobId
                               then j\<lparr>status := newStatus, attempts := newAttempts,
                                      scheduledFor := now + int (newAttempts * newAttempts * 60 * 1000)\<rparr>
                               else j) (jobQueue w1)\<rparr>)
             else (Returned (),
                   w\<lparr>jobQueue := map (\<lambda>j. if job_id j = jobId
                               then j\<lparr>status := newStatus, attempts := newAttempts\<rparr>
                               else j) (jobQueue w)\<rparr>))"

text \<open>
  \<^verbatim>\<open>cleanupOldJobs(olderThanDays)\<close>: counts, then deletes, the completed and failed jobs
  whose \<^verbatim>\<open>created_at\<close> is at or before \<^verbatim>\<open>Date.now() - olderThanDays\<close> days.
\<close>

definition purgeable :: "timestamp \<Rightarrow> job \<Rightarrow> bool" where
  "purgeable cutoff j = ((status j = Completed \<or> status j = Failed) \<and> job_createdAt j \<le> cutoff)"

definition cleanupOldJobs :: "env \<Rightarrow> int \<Rightarrow> world \<Rightarrow> nat outcome \<times> world" where
  "cleanupOldJobs e olderThanDays w =
     (let (now, w1) = new_Date e w;
          cutoff = now - olderThanDays * 24 * 60 * 60 * 1000
      in if \<not> db_up e then (Threw DbUnavailable, w1)
         else
           let toDelete = filter (purgeable cutoff) (jobQueue w1)
           in if length toDelete = 0 then (Returned 0, w1)
              else (Returned (length toDelete),
                    w1\<lparr>jobQueue := filter (\<lambda>j. \<not> purgeable cutoff j) (jobQueue w1)\<rparr>))"

section \<open>E-mail service\<close>

text \<open>
  \<^verbatim>\<open>sendEmail\<close> returns \<^verbatim>\<open>{ success }\<close> and never rejects: without an API key the
  message is only logged and counts as sent; with one, the provider's error or exception
  becomes \<^verbatim>\<open>success: false\<close>. \<open>mail_log\<close> records every message handed to it and
  the result.
\<close>

definition sendEmail :: "env \<Rightarrow> mail \<Rightarrow> world \<Rightarrow> bool \<times> world" where
  "sendEmail e m w =
     (if \<not> resend_api_key e then (True, w\<lparr>mail_log := mail_log w @ [(m, True)]\<rparr>)
      else (resend_ok e m, w\<lparr>mail_log := mail_log w @ [(m, resend_ok e m)]\<rparr>))"

definition sendInstantUpdate :: "env \<Rightarrow> string \<Rightarrow> updateWithMedia \<Rightarrow> world \<Rightarrow> bool \<times> world" where
  "sendInstantUpdate e to update w = sendEmail e (InstantUpdateMail to update) w"

definition sendDailyDigest :: "env \<Rightarrow> string \<Rightarrow> updateWithMedia list \<Rightarrow> world \<Rightarrow> bool \<times> world" where
  "sendDailyDigest e to upds w = sendEmail e (DailyDigestMail to upds) w"

definition sendWeeklyDigest ::
  "env \<Rightarrow> string \<Rightarrow> updateWithMedia list \<Rightarrow> timestamp \<Rightarrow> timestamp \<Rightarrow> world \<Rightarrow> bool \<times> world" where
  "sendWeeklyDigest e to upds weekStartDate weekEndDate w =
     sendEmail e (WeeklyDigestMail to upds weekStartDate weekEndDate) w"

definition sendSubscriptionConfirmed :: "env \<Rightarrow> string \<Rightarrow> string \<Rightarrow> world \<Rightarrow> bool \<times> world" where
  "sendSubscriptionConfirmed e to freq w = sendEmail e (SubscriptionConfirmedMail to freq) w"

section \<open>Digest jobs\<close>

definition getUpdatesWithMedia :: "env \<Rightarrow> uuid list \<Rightarrow> world \<Rightarrow> updateWithMedia list outcome \<times> world" where
  "getUpdatesWithMedia e updateIds w =
     (if length updateIds = 0 then (Returned [], w)
      else if \<not> db_up e then (Threw DbUnavailable, w)
      else
        let updatesData = filter (\<lambda>u. upd_id u \<in> set updateIds) (updates w);
            imagesData = filter (\<lambda>i. img_updateId i \<in> set updateIds) (images w);
            linksData = filter (\<lambda>l. link_updateId l \<in> set updateIds) (links w)
        in (Returned (map (\<lambda>u. \<lparr>uwm_update = u,
                                 uwm_images = filter (\<lambda>i. img_updateId i = upd_id u) imagesData,
                                 uwm_links = filter (\<lambda>l. link_updateId l = upd_id u) linksData\<rparr>)
                          updatesData), w))"

definition getProject :: "env \<Rightarrow> uuid \<Rightarrow> world \<Rightarrow> project option outcome \<times> world" where
  "getProject e projectId w =
     (if \<not> db_up e then (Threw DbUnavailable, w)
      else (Returned (find (\<lambda>p. proj_id p = projectId) (projects w)), w))"

text \<open>\<^verbatim>\<open>updateLastSentAt(subscriptionIds)\<close>: the only writer of \<^verbatim>\<open>last_sent_at\<close>.\<close>

definition updateLastSentAt :: "env \<Rightarrow> uuid list \<Rightarrow> world \<Rightarrow> unit outcome \<times> world" where
  "updateLastSentAt e subscriptionIds w =
     (if length subscriptionIds = 0 then (Returned (), w)
      else
        let (now, w1) = new_Date e w
        in if \<not> db_up e then (Threw DbUnavailable, w1)
           else (Returned (),
                 w1\<lparr>subscriptions := map (\<lambda>s. if sub_id s \<in> set subscriptionIds
                                               then s\<lparr>lastSentAt := Some now\<rparr> else s)
                                          (subscriptions w1)\<rparr>))"

definition triggerInstantDigest :: "env \<Rightarrow> uuid \<Rightarrow> uuid \<Rightarrow> world \<Rightarrow> unit outcome \<times> world" where
  "triggerInstantDigest e projectId updateId w =
     (if \<not> db_up e then (Threw DbUnavailable, w)
      else
        let subscribers = filter (\<lambda>s. sub_projectId s = projectId \<and> frequency s = ''instant'')
                                 (subscriptions w)
        in if length subscribers = 0 then (Returned (), w)
           else case enqueueJob e (InstantDigest projectId updateId (map sub_id subscribers)) None w of
                  (Returned j, w1) \<Rightarrow> (Returned (), w1)
                | (Threw x, w1) \<Rightarrow> (Threw x, w1))"

text \<open>
  One batch of \<^verbatim>\<open>processInstantDigest\<close>: \<^verbatim>\<open>Promise.all\<close> over the sends of the batch,
  which are started in the order of the batch; the results pair each subscriber's id
  with the success of its send.
\<close>

fun sendInstantBatch ::
  "env \<Rightarrow> updateWithMedia \<Rightarrow> subscription list \<Rightarrow> world \<Rightarrow> (uuid \<times> bool) list \<times> world" where
  "sendInstantBatch e update [] w = ([], w)"
| "sendInstantBatch e update (s # batch) w =
     (let (success, w1) = sendInstantUpdate e (email s) update w;
          (results, w2) = sendInstantBatch e update batch w1
      in ((sub_id s, success) # results, w2))"

definition BATCH_SIZE :: nat where
  "BATCH_SIZE = 5"

text \<open>\<^verbatim>\<open>for (let i = 0; i < subscribers.length; i += BATCH_SIZE)\<close>\<close>

function instantBatches ::
  "env \<Rightarrow> updateWithMedia \<Rightarrow> subscription list \<Rightarrow> nat \<Rightarrow> uuid list \<Rightarrow> world \<Rightarrow> uuid list \<times> world" where
  "instantBatches e update subscribers i successfulIds w =
     (if i < length subscribers
      then let batch = take BATCH_SIZE (drop i subscribers);
               (results, w1) = sendInstantBatch e update batch w
           in instantBatches e update subscribers (i + BATCH_SIZE)
                (successfulIds @ map fst (filter snd results)) w1
      else (successfulIds, w))"
  by pat_completeness auto
termination
  by (relation "measure (\<lambda>(e, update, subscribers, i, successfulIds, w). length subscribers - i)")
     (auto simp: BATCH_SIZE_def)

declare instantBatches.simps [simp del]

definition processInstantDigest ::
  "env \<Rightarrow> uuid \<Rightarrow> uuid \<Rightarrow> uuid list \<Rightarrow> world \<Rightarrow> unit outcome \<times> world" where
  "processInstantDigest e projectId updateId subscriberIds w =
     (case getProject e projectId w of
        (Threw x, w1) \<Rightarrow> (Threw x, w1)
      | (Returned None, w1) \<Rightarrow> (Threw (ProjectNotFound projectId), w1)
      | (Returned (Some proj), w1) \<Rightarrow>
          (case getUpdatesWithMedia e [updateId] w1 of
             (Threw x, w2) \<Rightarrow> (Threw x, w2)
           | (Returned [], w2) \<Rightarrow> (Threw (UpdateNotFound updateId), w2)
           | (Returned (update # rest), w2) \<Rightarrow>
               if \<not> db_up e then (Threw DbUnavailable, w2)
               else
                 let subscribers = filter (\<lambda>s. sub_id s \<in> set subscriberIds) (subscriptions w2);
                     (successfulIds, w3) = instantBatches e update subscribers 0 [] w2
                 in updateLastSentAt e successfulIds w3))"

text \<open>
  The body of the loop of \<^verbatim>\<open>processScheduledDigest\<close> for one subscriber of the
  snapshot: the updates of the project created after \<^verbatim>\<open>subscriber.lastSentAt || new Date(0)\<close>;
  none: \<^verbatim>\<open>continue\<close>; otherwise the daily or the weekly message, and the watermark when
  the send succeeded.
\<close>

definition digestSubscriber ::
  "env \<Rightarrow> uuid \<Rightarrow> string \<Rightarrow> timestamp \<Rightarrow> timestamp \<Rightarrow> subscription \<Rightarrow> world \<Rightarrow> unit outcome \<times> world" where
  "digestSubscriber e projectId freq weekStartDate weekEndDate subscriber w =
     (let lastSent = (case lastSentAt subscriber of Some t \<Rightarrow> t | None \<Rightarrow> 0)
      in if \<not> db_up e then (Threw DbUnavailable, w)
         else
           let newUpdates = filter (\<lambda>u. upd_projectId u = projectId \<and> upd_createdAt u > lastSent)
                                   (updates w)
           in if length newUpdates = 0 then (Returned (), w)
              else case getUpdatesWithMedia e (map upd_id newUpdates) w of
                     (Threw x, w1) \<Rightarrow> (Threw x, w1)
                   | (Returned updatesWithMedia, w1) \<Rightarrow>
                       let (success, w2) =
                             (if freq = ''daily''
                              then sendDailyDigest e (email subscriber) updatesWithMedia w1
                              else sendWeeklyDigest e (email subscriber) updatesWithMedia
                                     weekStartDate weekEndDate w1)
                       in if success then updateLastSentAt e [sub_id subscriber] w2
                          else (Returned (), w2))"

fun digestSubscribers ::
  "env \<Rightarrow> uuid \<Rightarrow> string \<Rightarrow> timestamp \<Rightarrow> timestamp \<Rightarrow> subscription list \<Rightarrow> world \<Rightarrow> unit outcome \<times> world" where
  "digestSubscribers e projectId freq weekStartDate weekEndDate [] w = (Returned (), w)"
| "digestSubscribers e projectId freq weekStartDate weekEndDate (subscriber # subscribers) w =
     (case digestSubscriber e projectId freq weekStartDate weekEndDate subscriber w of
        (Threw x, w1) \<Rightarrow> (Threw x, w1)
      | (Returned u, w1) \<Rightarrow> digestSubscribers e projectId freq weekStartDate weekEndDate subscribers w1)"

definition processScheduledDigest :: "env \<Rightarrow> uuid \<Rightarrow> string \<Rightarrow> world \<Rightarrow> unit outcome \<times> world" where
  "processScheduledDigest e projectId freq w =
     (case getProject e projectId w of
        (Threw x, w1) \<Rightarrow> (Threw x, w1)
      | (Returned None, w1) \<Rightarrow> (Threw (ProjectNotFound projectId), w1)
      | (Returned (Some proj), w1) \<Rightarrow>
          if \<not> db_up e then (Threw DbUnavailable, w1)
          else
            let subscribers = filter (\<lambda>s. sub_projectId s = projectId \<and> frequency s = freq)
                                     (subscriptions w1)
            in if length subscribers = 0 then (Returned (), w1)
               else
                 let (now, w2) = new_Date e w1;
                     weekEndDate = now;
                     weekStartDate = now - 7 * 24 * 60 * 60 * 1000
                 in digestSubscribers e projectId freq weekStartDate weekEndDate subscribers w2)"

text \<open>
  \<^verbatim>\<open>processJob(job)\<close>: \<^verbatim>\<open>markJobProcessing\<close> outside the \<^verbatim>\<open>try\<close>; inside it the
  digest by type and \<^verbatim>\<open>markJobCompleted\<close>; the \<^verbatim>\<open>catch\<close> calls \<^verbatim>\<open>markJobFailed\<close> and
  rethrows.
\<close>

definition processJob :: "env \<Rightarrow> job \<Rightarrow> world \<Rightarrow> unit outcome \<times> world" where
  "processJob e jb w =
     (case markJobProcessing e (job_id jb) w of
        (Threw x, w1) \<Rightarrow> (Threw x, w1)
      | (Returned u, w1) \<Rightarrow>
          let tried =
                (case (case job_type jb of
                         InstantDigest projectId updateId subscriberIds \<Rightarrow>
                           processInstantDigest e projectId updateId subscriberIds w1
                       | DailyDigest projectId \<Rightarrow> processScheduledDigest e projectId ''daily'' w1
                       | WeeklyDigest projectId \<Rightarrow> processScheduledDigest e projectId ''weekly'' w1
                       | OtherJob t \<Rightarrow> (Threw (UnknownJobType t), w1)) of
                   (Threw x, w2) \<Rightarrow> (Threw x, w2)
                 | (Returned u, w2) \<Rightarrow> markJobCompleted e (job_id jb) w2)
          in (case tried of
                (Returned u, w3) \<Rightarrow> (Returned (), w3)
              | (Threw x, w3) \<Rightarrow>
                  (case markJobFailed e (job_id jb) w3 of
                     (Threw y, w4) \<Rightarrow> (Threw y, w4)
                   | (Returned u, w4) \<Rightarrow> (Threw x, w4))))"

text \<open>The loop of \<^verbatim>\<open>runJobProcessor\<close>: a job that throws does not stop the others.\<close>

fun processJobs :: "env \<Rightarrow> job list \<Rightarrow> world \<Rightarrow> world" where
  "processJobs e [] w = w"
| "processJobs e (jb # jobs) w = processJobs e jobs (snd (processJob e jb w))"

definition runJobProcessor :: "env \<Rightarrow> world \<Rightarrow> unit outcome \<times> world" where
  "runJobProcessor e w =
     (case getPendingJobs e 10 w of
        (Threw x, w1) \<Rightarrow> (Threw x, w1)
      | (Returned jobs, w1) \<Rightarrow>
          if length jobs = 0 then (Returned (), w1)
          else (Returned (), processJobs e jobs w1))"

fun enqueueEach :: "env \<Rightarrow> (uuid \<Rightarrow> job_type) \<Rightarrow> uuid list \<Rightarrow> world \<Rightarrow> unit outcome \<times> world" where
  "enqueueEach e ty [] w = (Returned (), w)"
| "enqueueEach e ty (projectId # projectIds) w =
     (case enqueueJob e (ty projectId) None w of
        (Threw x, w1) \<Rightarrow> (Threw x, w1)
      | (Returned j, w1) \<Rightarrow> enqueueEach e ty projectIds w1)"

text \<open>\<^verbatim>\<open>selectDistinct\<close> of the project ids of the subscriptions of one frequency, and
  one job for each.\<close>

definition queueDailyDigests :: "env \<Rightarrow> world \<Rightarrow> unit outcome \<times> world" where
  "queueDailyDigests e w =
     (if \<not> db_up e then (Threw DbUnavailable, w)
      else
        let projectIds = remdups (map sub_projectId
                           (filter (\<lambda>s. frequency s = ''daily'') (subscriptions w)))
        in enqueueEach e DailyDigest projectIds w)"

definition queueWeeklyDigests :: "env \<Rightarrow> world \<Rightarrow> unit outcome \<times> world" where
  "queueWeeklyDigests e w =
     (if \<not> db_up e then (Threw DbUnavailable, w)
      else
        let projectIds = remdups (map sub_projectId
                           (filter (\<lambda>s. frequency s = ''weekly'') (subscriptions w)))
        in enqueueEach e WeeklyDigest projectIds w)"

section \<open>Scheduler\<close>

text \<open>The last run of each cadence, held in process memory.\<close>

record scheduleState =
  dailyDigest :: "timestamp option"
  weeklyDigest :: "timestamp option"
  cleanup :: "timestamp option"

definition DAILY_DIGEST_HOUR :: int where
  "DAILY_DIGEST_HOUR = 9"

definition WEEKLY_DIGEST_DAY :: int where
  "WEEKLY_DIGEST_DAY = 0"

definition WEEKLY_DIGEST_HOUR :: int where
  "WEEKLY_DIGEST_HOUR = 10"

definition CLEANUP_HOUR :: int where
  "CLEANUP_HOUR = 3"

text \<open>\<^verbatim>\<open>d.setUTCHours(h, 0, 0, 0)\<close>: the same UTC day at \<open>h\<close> o'clock.
  \<^verbatim>\<open>d.getUTCDay()\<close>: 0 for Sunday; the epoch was a Thursday.\<close>

definition setUTCHours :: "timestamp \<Rightarrow> int \<Rightarrow> timestamp" where
  "setUTCHours d h = d - d mod 86400000 + h * 3600000"

definition getUTCDay :: "timestamp \<Rightarrow> int" where
  "getUTCDay d = (d div 86400000 + 4) mod 7"

definition shouldRunDailyDigest :: "env \<Rightarrow> scheduleState \<Rightarrow> world \<Rightarrow> bool \<times> world" where
  "shouldRunDailyDigest e st w =
     (let (now, w1) = new_Date e w;
          todayTarget = setUTCHours now DAILY_DIGEST_HOUR
      in if now < todayTarget then (False, w1)
         else if (case dailyDigest st of Some d \<Rightarrow> d \<ge> todayTarget | None \<Rightarrow> False) then (False, w1)
         else (True, w1))"

definition shouldRunWeeklyDigest :: "env \<Rightarrow> scheduleState \<Rightarrow> world \<Rightarrow> bool \<times> world" where
  "shouldRunWeeklyDigest e st w =
     (let (now, w1) = new_Date e w
      in if getUTCDay now \<noteq> WEEKLY_DIGEST_DAY then (False, w1)
         else
           let todayTarget = setUTCHours now WEEKLY_DIGEST_HOUR
           in if now < todayTarget then (False, w1)
              else if (case weeklyDigest st of Some d \<Rightarrow> d \<ge> todayTarget | None \<Rightarrow> False)
                   then (False, w1)
              else (True, w1))"

definition shouldRunCleanup :: "env \<Rightarrow> scheduleState \<Rightarrow> world \<Rightarrow> bool \<times> world" where
  "shouldRunCleanup e st w =
     (let (now, w1) = new_Date e w;
          todayTarget = setUTCHours now CLEANUP_HOUR
      in if now < todayTarget then (False, w1)
         else if (case cleanup st of Some d \<Rightarrow> d \<ge> todayTarget | None \<Rightarrow> False) then (False, w1)
         else (True, w1))"

text \<open>
  \<^verbatim>\<open>runSchedulerTick\<close>: its three \<^verbatim>\<open>if (shouldRun...())\<close> blocks, one function each,
  and the job processor. A cadence that is due runs inside its own \<^verbatim>\<open>try\<close>: the call,
  then the assignment of \<^verbatim>\<open>new Date()\<close> to the cadence's last run; the \<^verbatim>\<open>catch\<close> only
  logs. The job processor runs at the end of every tick, outside any \<^verbatim>\<open>try\<close>.
\<close>

definition tickDailyDigest :: "env \<Rightarrow> scheduleState \<Rightarrow> world \<Rightarrow> scheduleState \<times> world" where
  "tickDailyDigest e st w =
     (let (due, w1) = shouldRunDailyDigest e st w
      in if due
         then (case queueDailyDigests e w1 of
                 (Returned u, w2) \<Rightarrow>
                   (let (now, w3) = new_Date e w2 in (st\<lparr>dailyDigest := Some now\<rparr>, w3))
               | (Threw x, w2) \<Rightarrow> (st, w2))
         else (st, w1))"

definition tickWeeklyDigest :: "env \<Rightarrow> scheduleState \<Rightarrow> world \<Rightarrow> scheduleState \<times> world" where
  "tickWeeklyDigest e st w =
     (let (due, w1) = shouldRunWeeklyDigest e st w
      in if due
         then (case queueWeeklyDigests e w1 of
                 (Returned u, w2) \<Rightarrow>
                   (let (now, w3) = new_Date e w2 in (st\<lparr>weeklyDigest := Some now\<rparr>, w3))
               | (Threw x, w2) \<Rightarrow> (st, w2))
         else (st, w1))"

definition tickCleanup :: "env \<Rightarrow> scheduleState \<Rightarrow> world \<Rightarrow> scheduleState \<times> world" where
  "tickCleanup e st w =
     (let (due, w1) = shouldRunCleanup e st w
      in if due
         then (case cleanupOldJobs e 7 w1 of
                 (Returned deleted, w2) \<Rightarrow>
                   (let (now, w3) = new_Date e w2 in (st\<lparr>cleanup := Some now\<rparr>, w3))
               | (Threw x, w2) \<Rightarrow> (st, w2))
         else (st, w1))"

definition runSchedulerTick :: "env \<Rightarrow> scheduleState \<Rightarrow> world \<Rightarrow> unit outcome \<times> scheduleState \<times> world" where
  "runSchedulerTick e st w =
     (let (st1, w1) = tickDailyDigest e st w;
          (st2, w2) = tickWeeklyDigest e st1 w1;
          (st3, w3) = tickCleanup e st2 w2;
          (r, w4) = runJobProcessor e w3
      in (r, st3, w4))"

section \<open>Public subscribe route\<close>

text \<open>
  \<^verbatim>\<open>POST /api/public/timeline/:token/subscribe\<close>. Strings are modelled over the
  characters of ASCII: \<^verbatim>\<open>\s\<close> and \<^verbatim>\<open>trim()\<close> know tab, line feed, vertical tab, form
  feed, carriage return and space, and \<^verbatim>\<open>toLowerCase()\<close> maps A..Z.
\<close>

definition is_space :: "char \<Rightarrow> bool" where
  "is_space c = (c \<in> set [CHR 0x09, CHR 0x0A, CHR 0x0B, CHR 0x0C, CHR 0x0D, CHR 0x20])"

definition lower_char :: "char \<Rightarrow> char" where
  "lower_char c =
     (if (65::nat) \<le> of_char c \<and> of_char c \<le> (90::nat) then char_of (of_char c + (32::nat)) else c)"

definition toLowerCase :: "string \<Rightarrow> string" where
  "toLowerCase s = map lower_char s"

definition trim :: "string \<Rightarrow> string" where
  "trim s = rev (dropWhile is_space (rev (dropWhile is_space s)))"

text \<open>\<^verbatim>\<open>/^[^\s@]+@[^\s@]+\.[^\s@]+$/.test(s)\<close>\<close>

definition non_space_at :: "char \<Rightarrow> bool" where
  "non_space_at c = (\<not> is_space c \<and> c \<noteq> CHR ''@'')"

definition emailRegex_test :: "string \<Rightarrow> bool" where
  "emailRegex_test s =
     (let local_part = takeWhile non_space_at s
      in local_part \<noteq> [] \<and>
         (case dropWhile non_space_at s of
            [] \<Rightarrow> False
          | c # domain_part \<Rightarrow>
              c = CHR ''@'' \<and> list_all non_space_at domain_part \<and>
              list_ex (\<lambda>i. domain_part ! i = CHR ''.'') [1 ..< length domain_part - 1]))"

definition validFrequencies :: "string list" where
  "validFrequencies = [''instant'', ''daily'', ''weekly'']"

text \<open>The response: the HTTP status and the message of the JSON body.\<close>

datatype response = Response nat string

text \<open>
  The handler. The fields \<^verbatim>\<open>email\<close> and \<^verbatim>\<open>frequency\<close> of the request body are
  \<open>None\<close> when absent or not a string. A query that rejects is caught by the handler
  and answered with 500. The confirmation e-mail is sent without being awaited.
\<close>

definition subscribe :: "env \<Rightarrow> string \<Rightarrow> string option \<Rightarrow> string option \<Rightarrow> world \<Rightarrow> response \<times> world" where
  "subscribe e token emailField frequencyField w =
     (case emailField of
        None \<Rightarrow> (Response 400 ''Email is required'', w)
      | Some em \<Rightarrow>
          if em = [] then (Response 400 ''Email is required'', w)
          else if \<not> emailRegex_test em then (Response 400 ''Invalid email format'', w)
          else
            let normalizedFrequency =
                  (case frequencyField of
                     None \<Rightarrow> ''instant''
                   | Some f \<Rightarrow> if f \<noteq> [] \<and> f \<in> set validFrequencies then f else ''instant'')
            in if \<not> db_up e then (Response 500 ''Internal server error'', w)
               else
                 (case find (\<lambda>p. magicLinkToken p = Some token) (projects w) of
                   None \<Rightarrow> (Response 404 ''Project not found'', w)
                 | Some proj \<Rightarrow>
                     (case find (\<lambda>s. sub_projectId s = proj_id proj \<and> email s = trim (toLowerCase em))
                                (subscriptions w) of
                        Some existingSubscription \<Rightarrow>
                          let w1 = w\<lparr>subscriptions :=
                                      map (\<lambda>s. if sub_id s = sub_id existingSubscription
                                                then s\<lparr>frequency := normalizedFrequency\<rparr> else s)
                                          (subscriptions w)\<rparr>;
                              (sent, w2) = sendSubscriptionConfirmed e (trim (toLowerCase em))
                                             normalizedFrequency w1
                          in (Response 200 ''Subscription updated successfully'', w2)
                      | None \<Rightarrow>
                          let (created, w1) = new_Date e w;
                              row = \<lparr>sub_id = next_uuid w1, sub_projectId = proj_id proj,
                                     email = trim (toLowerCase em), frequency = normalizedFrequency,
                                     lastSentAt = None, sub_createdAt = created\<rparr>;
                              w2 = w1\<lparr>subscriptions := subscriptions w1 @ [row],
                                      next_uuid := Suc (next_uuid w1)\<rparr>;
                              (sent, w3) = sendSubscriptionConfirmed e (trim (toLowerCase em))
                                             normalizedFrequency w2
                          in (Response 201 ''Subscribed successfully'', w3))))"

section \<open>Example data\<close>

text \<open>
  A small world used to run the operations on concrete input: one project with four
  daily subscribers and one instant subscriber, two updates of the project and one of
  another project, and three jobs, the second of them for a project that does not
  exist. The clock stands at Sunday 2023-11-12 22:13:20 UTC. In \<open>demo_env\<close> the
  database answers, the provider refuses the messages to \<^verbatim>\<open>b@x.com\<close>, and the clock
  advances by a millisecond at each reading; in \<open>offline_env\<close> the database does not
  answer; in \<open>frozen_env\<close> the clock stands still.
\<close>

definition demo_env :: env where
  "demo_env = \<lparr>db_up = True, resend_api_key = True,
                resend_ok = (\<lambda>m. mail_to m \<noteq> ''b@x.com''), elapse = (\<lambda>n. 1)\<rparr>"

definition offline_env :: env where
  "offline_env = \<lparr>db_up = False, resend_api_key = True,
                   resend_ok = (\<lambda>m. mail_to m \<noteq> ''b@x.com''), elapse = (\<lambda>n. 1)\<rparr>"

definition frozen_env :: env where
  "frozen_env = \<lparr>db_up = True, resend_api_key = True,
                  resend_ok = (\<lambda>m. mail_to m \<noteq> ''b@x.com''), elapse = (\<lambda>n. 0)\<rparr>"

definition demo_world :: world where
  "demo_world =
     \<lparr>subscriptions =
        [\<lparr>sub_id = 10, sub_projectId = 1, email = ''a@x.com'', frequency = ''daily'',
          lastSentAt = Some 1698963200000, sub_createdAt = 1698000000000\<rparr>,
         \<lparr>sub_id = 11, sub_projectId = 1, email = ''b@x.com'', frequency = ''daily'',
          lastSentAt = None, sub_createdAt = 1698000000000\<rparr>,
         \<lparr>sub_id = 12, sub_projectId = 1, email = ''c@x.com'', frequency = ''daily'',
          lastSentAt = Some 1699827100000, sub_createdAt = 1698000000000\<rparr>,
         \<lparr>sub_id = 13, sub_projectId = 1, email = ''d@x.com'', frequency = ''instant'',
          lastSentAt = None, sub_createdAt = 1698000000000\<rparr>,
         \<lparr>sub_id = 14, sub_projectId = 1, email = ''e@x.com'', frequency = ''daily'',
          lastSentAt = Some 1699700000000, sub_createdAt = 1698000000000\<rparr>],
      updates =
        [\<lparr>upd_id = 100, upd_projectId = 1, content = ''kickoff'', upd_createdAt = 1699395200000\<rparr>,
         \<lparr>upd_id = 101, upd_projectId = 1, content = ''design ready'', upd_createdAt = 1699740800000\<rparr>,
         \<lparr>upd_id = 102, upd_projectId = 2, content = ''other project'', upd_createdAt = 1699740900000\<rparr>],
      images = [\<lparr>img_id = 200, img_updateId = 101\<rparr>],
      links = [\<lparr>link_id = 300, link_updateId = 100, url = ''https://example.org''\<rparr>],
      projects = [\<lparr>proj_id = 1, proj_name = ''Site'', magicLinkToken = Some ''tok''\<rparr>],
      jobQueue =
        [\<lparr>job_id = 1000, job_type = DailyDigest 1, status = Pending, attempts = 0,
          scheduledFor = 1699827000000, job_createdAt = 1699827000000\<rparr>,
         \<lparr>job_id = 1001, job_type = DailyDigest 99, status = Pending, attempts = 0,
          scheduledFor = 1699827000000, job_createdAt = 1699827000000\<rparr>,
         \<lparr>job_id = 1002, job_type = WeeklyDigest 1, status = Completed, attempts = 1,
          scheduledFor = 1699000000000, job_createdAt = 1699000000000\<rparr>],
      mail_log = [],
      clock = 1699827200000,
      reads = 0,
      next_uuid = 2000\<rparr>"

definition fresh_schedule :: scheduleState where
  "fresh_schedule = \<lparr>dailyDigest = None, weeklyDigest = None, cleanup = None\<rparr>"

text \<open>An instant-digest job for the second update of the project and the subscriptions
  13 and 10, as \<^verbatim>\<open>triggerInstantDigest\<close> would have enqueued it.\<close>

definition demo_instant_job :: job where
  "demo_instant_job =
     \<lparr>job_id = 1003, job_type = InstantDigest 1 101 [13, 10], status = Pending, attempts = 0,
      scheduledFor = 1699827000000, job_createdAt = 1699827000000\<rparr>"

section \<open>Notions used in the statements\<close>

text \<open>The \<^verbatim>\<open>success\<close> that \<^verbatim>\<open>sendEmail\<close> returns for a message.\<close>

definition accepted :: "env \<Rightarrow> mail \<Rightarrow> bool" where
  "accepted e m = (\<not> resend_api_key e \<or> resend_ok e m)"

text \<open>
  The pure parts of the loop body of \<^verbatim>\<open>processScheduledDigest\<close>: the rows its query
  selects for a subscriber of the snapshot, what \<^verbatim>\<open>getUpdatesWithMedia\<close> attaches to
  the updates of given ids, and the message built from them.
\<close>

definition newUpdatesFor :: "uuid \<Rightarrow> subscription \<Rightarrow> world \<Rightarrow> update_row list" where
  "newUpdatesFor projectId subscriber w =
     filter (\<lambda>u. upd_projectId u = projectId \<and>
                 upd_createdAt u > (case lastSentAt subscriber of Some t \<Rightarrow> t | None \<Rightarrow> 0))
            (updates w)"

definition withMedia :: "world \<Rightarrow> uuid list \<Rightarrow> updateWithMedia list" where
  "withMedia w updateIds =
     map (\<lambda>u. \<lparr>uwm_update = u,
               uwm_images = filter (\<lambda>i. img_updateId i = upd_id u)
                              (filter (\<lambda>i. img_updateId i \<in> set updateIds) (images w)),
               uwm_links = filter (\<lambda>l. link_updateId l = upd_id u)
                              (filter (\<lambda>l. link_updateId l \<in> set updateIds) (links w))\<rparr>)
         (filter (\<lambda>u. upd_id u \<in> set updateIds) (updates w))"

definition digestMailFor ::
  "uuid \<Rightarrow> string \<Rightarrow> timestamp \<Rightarrow> timestamp \<Rightarrow> world \<Rightarrow> subscription \<Rightarrow> mail" where
  "digestMailFor projectId freq weekStartDate weekEndDate w subscriber =
     (if freq = ''daily''
      then DailyDigestMail (email subscriber)
             (withMedia w (map upd_id (newUpdatesFor projectId subscriber w)))
      else WeeklyDigestMail (email subscriber)
             (withMedia w (map upd_id (newUpdatesFor projectId subscriber w)))
             weekStartDate weekEndDate)"

text \<open>
  For a subscriber of the snapshot of \<^verbatim>\<open>processScheduledDigest\<close>: there are new updates
  and the digest made of them is reported as sent. And a subscription row after the
  loop over a snapshot: the watermark is a time of the clock during the loop when a
  subscriber of the snapshot with the row's id had its digest sent; otherwise the row
  is as it was.
\<close>

definition digestSent :: "env \<Rightarrow> uuid \<Rightarrow> string \<Rightarrow> timestamp \<Rightarrow> timestamp \<Rightarrow> world \<Rightarrow> subscription \<Rightarrow> bool" where
  "digestSent e pid f ws we w s = (newUpdatesFor pid s w \<noteq> [] \<and> accepted e (digestMailFor pid f ws we w s))"

definition rowAfterDigest ::
  "env \<Rightarrow> uuid \<Rightarrow> string \<Rightarrow> timestamp \<Rightarrow> timestamp \<Rightarrow> subscription list \<Rightarrow> world \<Rightarrow> world \<Rightarrow> subscription \<Rightarrow> subscription \<Rightarrow> bool" where
  "rowAfterDigest e pid f ws we ss w w' r r' =
     (if list_ex (\<lambda>s. sub_id s = sub_id r \<and> digestSent e pid f ws we w s) ss
      then (case lastSentAt r' of None \<Rightarrow> False
            | Some t \<Rightarrow> r' = r\<lparr>lastSentAt := Some t\<rparr> \<and> clock w \<le> t \<and> t \<le> clock w')
      else r' = r)"

text \<open>The messages logged between two worlds, and whether one of a list of logged
  messages went to an address and was reported as sent.\<close>

definition new_mail :: "world \<Rightarrow> world \<Rightarrow> (mail \<times> bool) list" where
  "new_mail w w' = drop (length (mail_log w)) (mail_log w')"

definition sent_to :: "string \<Rightarrow> (mail \<times> bool) list \<Rightarrow> bool" where
  "sent_to a ms = list_ex (\<lambda>(m, ok). ok \<and> mail_to m = a) ms"

text \<open>
  A subscription row between two worlds: either it is the same row, or only its
  watermark differs, the new watermark is a time of the clock between the two worlds,
  and a message to the row's address was reported as sent in between.
\<close>

definition kept_or_advanced :: "world \<Rightarrow> world \<Rightarrow> subscription \<Rightarrow> subscription \<Rightarrow> bool" where
  "kept_or_advanced w w' r r' =
     (r' = r \<or>
      (case lastSentAt r' of
         None \<Rightarrow> False
       | Some t \<Rightarrow> r' = r\<lparr>lastSentAt := Some t\<rparr> \<and> clock w \<le> t \<and> t \<le> clock w' \<and>
                   sent_to (email r) (new_mail w w')))"

definition only_advances :: "world \<Rightarrow> world \<Rightarrow> bool" where
  "only_advances w w' =
     (clock w \<le> clock w' \<and>
      take (length (mail_log w)) (mail_log w') = mail_log w \<and>
      list_all2 (kept_or_advanced w w') (subscriptions w) (subscriptions w'))"

text \<open>The order of watermarks: \<^verbatim>\<open>null\<close> (never sent) is below every time.\<close>

fun watermark_le :: "timestamp option \<Rightarrow> timestamp option \<Rightarrow> bool" where
  "watermark_le None b = True"
| "watermark_le (Some s) None = False"
| "watermark_le (Some s) (Some t) = (s \<le> t)"

text \<open>No watermark of the table lies after the clock.\<close>

definition not_in_future :: "world \<Rightarrow> bool" where
  "not_in_future w = list_all (\<lambda>r. watermark_le (lastSentAt r) (Some (clock w))) (subscriptions w)"

text \<open>Two readings of the clock: the second is not before the first and falls on the
  same UTC day.\<close>

definition same_day_later :: "timestamp \<Rightarrow> timestamp \<Rightarrow> bool" where
  "same_day_later t t' = (t \<le> t' \<and> t' div 86400000 = t div 86400000)"

text \<open>The \<^verbatim>\<open>switch (job.type)\<close> of \<^verbatim>\<open>processJob\<close>.\<close>

definition digestOfJob :: "env \<Rightarrow> job \<Rightarrow> world \<Rightarrow> unit outcome \<times> world" where
  "digestOfJob e jb w =
     (case job_type jb of
        InstantDigest projectId updateId subscriberIds \<Rightarrow>
          processInstantDigest e projectId updateId subscriberIds w
      | DailyDigest projectId \<Rightarrow> processScheduledDigest e projectId ''daily'' w
      | WeeklyDigest projectId \<Rightarrow> processScheduledDigest e projectId ''weekly'' w
      | OtherJob t \<Rightarrow> (Threw (UnknownJobType t), w))"

text \<open>A sequence of job-processing passes, each meeting its own outside conditions.\<close>

fun processAll :: "(env \<times> job) list \<Rightarrow> world \<Rightarrow> world" where
  "processAll [] w = w"
| "processAll ((e, jb) # passes) w = processAll passes (snd (processJob e jb w))"

section \<open>The clock\<close>

lemma new_Date_fields:
  "subscriptions (snd (new_Date e w)) = subscriptions w"
  "updates (snd (new_Date e w)) = updates w"
  "images (snd (new_Date e w)) = images w"
  "links (snd (new_Date e w)) = links w"
  "projects (snd (new_Date e w)) = projects w"
  "jobQueue (snd (new_Date e w)) = jobQueue w"
  "mail_log (snd (new_Date e w)) = mail_log w"
  "next_uuid (snd (new_Date e w)) = next_uuid w"
  "clock (snd (new_Date e w)) = fst (new_Date e w)"
  "reads (snd (new_Date e w)) = Suc (reads w)"
  by (simp_all add: new_Date_def Let_def)

lemma new_Date_time: "fst (new_Date e w) = clock w + int (elapse e (reads w))"
  by (simp add: new_Date_def Let_def)

lemma new_Date_later: "clock w \<le> fst (new_Date e w)"
  by (simp add: new_Date_time)

section \<open>Job queue: failing and purging\<close>

text \<open>
  C10. \<^verbatim>\<open>markJobFailed\<close> on a job id that is not in the queue returns normally and
  leaves the world, every job row included, as it was (the database answering).
\<close>

theorem markJobFailed_unknown_job:
  assumes "db_up e" and "jobId \<notin> job_id ` set (jobQueue w)"
  shows "markJobFailed e jobId w = (Returned (), w)"
proof -
  from assms(2) have "find (\<lambda>j. job_id j = jobId) (jobQueue w) = None"
    by (auto simp: find_None_iff)
  with assms(1) show ?thesis
    by (simp add: markJobFailed_def)
qed

theorem markJobFailed_unknown_job_witness:
  "db_up demo_env \<and> 7 \<notin> job_id ` set (jobQueue demo_world)
   \<and> markJobFailed demo_env 7 demo_world = (Returned (), demo_world)"
  using markJobFailed_unknown_job [of demo_env 7 demo_world]
  by (simp add: demo_env_def demo_world_def)

text \<open>
  What \<^verbatim>\<open>markJobFailed\<close> writes for a job that exists: one more attempt; with that
  count at \<open>MAX_ATTEMPTS\<close> or more the status \<open>Failed\<close> and nothing else; below it the
  status \<open>Pending\<close> and a new \<open>scheduledFor\<close>, the square of the new count in minutes
  after the time read.
\<close>

lemma markJobFailed_existing:
  assumes "db_up e" and "find (\<lambda>j. job_id j = jobId) (jobQueue w) = Some jb"
  shows "markJobFailed e jobId w =
     (if attempts jb + 1 \<ge> MAX_ATTEMPTS
      then (Returned (),
            w\<lparr>jobQueue := map (\<lambda>j. if job_id j = jobId
                                   then j\<lparr>status := Failed, attempts := attempts jb + 1\<rparr> else j)
                              (jobQueue w)\<rparr>)
      else (Returned (),
            (snd (new_Date e w))
             \<lparr>jobQueue := map (\<lambda>j. if job_id j = jobId
                   then j\<lparr>status := Pending, attempts := attempts jb + 1,
                          scheduledFor := fst (new_Date e w)
                            + int ((attempts jb + 1) * (attempts jb + 1)) * 60000\<rparr>
                   else j) (jobQueue w)\<rparr>))"
  using assms by (simp add: markJobFailed_def Let_def split_beta new_Date_fields)

text \<open>
  C1. The claim: a job whose processing failed for the first time is rescheduled one
  minute after the failure, and a job is parked as \<open>Failed\<close> only by its third failure.
  On the code: the pending job 1001 of the example world (its project does not exist)
  is processed once. \<^verbatim>\<open>markJobProcessing\<close> has counted the pass, \<^verbatim>\<open>markJobFailed\<close>
  counts it again: the row holds two attempts and is rescheduled four minutes
  (240000 ms) after the time read, 1699827200001. Processed a second time, it is
  \<open>Failed\<close> with four attempts.
\<close>

theorem processJob_failure_counts_twice:
  "processJob demo_env (jobQueue demo_world ! 1) demo_world =
     (Threw (ProjectNotFound 99),
      demo_world\<lparr>clock := 1699827200001, reads := 1,
        jobQueue := (jobQueue demo_world)
          [1 := \<lparr>job_id = 1001, job_type = DailyDigest 99, status = Pending, attempts = 2,
                 scheduledFor = 1699827200001 + 240000, job_createdAt = 1699827000000\<rparr>]\<rparr>)
   \<and> map (\<lambda>j. (status j, attempts j))
        (filter (\<lambda>j. job_id j = 1001)
           (jobQueue (snd (processJob demo_env (jobQueue demo_world ! 1)
                        (snd (processJob demo_env (jobQueue demo_world ! 1) demo_world))))))
     = [(Failed, 4)]"
  by (simp add: demo_env_def demo_world_def processJob_def markJobProcessing_def
      processScheduledDigest_def getProject_def markJobFailed_def new_Date_def
      MAX_ATTEMPTS_def Let_def)

text \<open>
  C8. Two purges in a row, the database answering: when the second reads the same time
  as the first (the same cutoff), it returns 0 and leaves the queue as it found it. The
  first purge removes exactly the completed and failed jobs created at or before the
  cutoff, and each purge returns the number of jobs it removed.
\<close>

theorem cleanupOldJobs_idempotent:
  assumes up1: "db_up e1" and up2: "db_up e2"
    and run1: "cleanupOldJobs e1 days w = (r1, w1)"
    and run2: "cleanupOldJobs e2 days w1 = (r2, w2)"
    and same: "fst (new_Date e2 w1) = fst (new_Date e1 w)"
  shows "r2 = Returned 0 \<and> w2 = snd (new_Date e2 w1) \<and> jobQueue w2 = jobQueue w1
       \<and> jobQueue w1 =
           filter (\<lambda>j. \<not> purgeable (fst (new_Date e1 w) - days * 24 * 60 * 60 * 1000) j) (jobQueue w)
       \<and> r1 = Returned (length (jobQueue w) - length (jobQueue w1))
       \<and> r2 = Returned (length (jobQueue w1) - length (jobQueue w2))"
proof -
  define c where "c = fst (new_Date e1 w) - days * 24 * 60 * 60 * 1000"
  have q1: "jobQueue w1 = filter (\<lambda>j. \<not> purgeable c j) (jobQueue w)"
    and r1: "r1 = Returned (length (filter (purgeable c) (jobQueue w)))"
    using run1 up1
    by (auto simp: cleanupOldJobs_def new_Date_def Let_def c_def filter_empty_conv
          filter_id_conv split: if_splits)
  have none: "filter (purgeable c) (jobQueue w1) = []"
    by (simp add: q1 filter_empty_conv)
  have c2: "fst (new_Date e2 w1) - days * 24 * 60 * 60 * 1000 = c"
    using same by (simp add: c_def)
  have r2: "r2 = Returned 0 \<and> w2 = snd (new_Date e2 w1)"
    using run2 up2 none c2
    by (simp add: cleanupOldJobs_def Let_def split_beta new_Date_fields)
  have len: "length (jobQueue w) - length (jobQueue w1) = length (filter (purgeable c) (jobQueue w))"
    using sum_length_filter_compl [of "purgeable c" "jobQueue w"] by (simp add: q1)
  show ?thesis
    using q1 r1 r2 len by (simp add: c_def new_Date_fields)
qed

theorem cleanupOldJobs_idempotent_witness:
  "db_up demo_env \<and> db_up frozen_env
   \<and> fst (new_Date frozen_env (snd (cleanupOldJobs demo_env 7 demo_world)))
       = fst (new_Date demo_env demo_world)
   \<and> fst (cleanupOldJobs demo_env 7 demo_world) = Returned 1
   \<and> fst (cleanupOldJobs frozen_env 7 (snd (cleanupOldJobs demo_env 7 demo_world))) = Returned 0
   \<and> map job_id (jobQueue (snd (cleanupOldJobs frozen_env 7 (snd (cleanupOldJobs demo_env 7 demo_world)))))
       = [1000, 1001]"
proof -
  have up1: "db_up demo_env" and up2: "db_up frozen_env"
    by (simp_all add: demo_env_def frozen_env_def)
  have first: "cleanupOldJobs demo_env 7 demo_world =
      (Returned 1, demo_world\<lparr>clock := 1699827200001, reads := 1,
                               jobQueue := take 2 (jobQueue demo_world)\<rparr>)"
    by (simp add: cleanupOldJobs_def demo_env_def demo_world_def new_Date_def purgeable_def Let_def)
  have same: "fst (new_Date frozen_env (snd (cleanupOldJobs demo_env 7 demo_world)))
      = fst (new_Date demo_env demo_world)"
    by (simp add: first) (simp add: new_Date_def frozen_env_def demo_env_def demo_world_def Let_def)
  from cleanupOldJobs_idempotent [OF up1 up2 surjective_pairing surjective_pairing same]
  have "fst (cleanupOldJobs frozen_env 7 (snd (cleanupOldJobs demo_env 7 demo_world))) = Returned 0"
    and "jobQueue (snd (cleanupOldJobs frozen_env 7 (snd (cleanupOldJobs demo_env 7 demo_world))))
         = jobQueue (snd (cleanupOldJobs demo_env 7 demo_world))"
    by (simp_all add: new_Date_fields)
  then show ?thesis
    using up1 up2 same by (simp add: first) (simp add: demo_world_def)
qed

section \<open>Triggering an instant digest\<close>

text \<open>
  C6. \<^verbatim>\<open>triggerInstantDigest(projectId, updateId)\<close>, the database answering, returns
  normally. When the project has no subscription of frequency \<^verbatim>\<open>instant\<close> the world
  is unchanged: no job is enqueued. Otherwise exactly one job is appended to the queue:
  pending, with no attempts, of type \<^verbatim>\<open>instant_digest\<close>, carrying the project id, the
  update id and the ids of exactly the instant subscriptions of the project at the time
  of the call; the subscriptions are not touched and nothing is sent.
\<close>

theorem triggerInstantDigest_enqueues_snapshot:
  assumes up: "db_up e" and run: "triggerInstantDigest e projectId updateId w = (r, w')"
  shows "r = Returned () \<and>
         (if filter (\<lambda>s. sub_projectId s = projectId \<and> frequency s = ''instant'') (subscriptions w) = []
          then w' = w
          else \<exists>j. jobQueue w' = jobQueue w @ [j]
                 \<and> job_type j = InstantDigest projectId updateId
                      (map sub_id (filter (\<lambda>s. sub_projectId s = projectId \<and> frequency s = ''instant'')
                                          (subscriptions w)))
                 \<and> status j = Pending \<and> attempts j = 0
                 \<and> subscriptions w' = subscriptions w \<and> mail_log w' = mail_log w)"
  using up run
  by (auto simp: triggerInstantDigest_def enqueueJob_def new_Date_def Let_def split: if_splits)

theorem triggerInstantDigest_enqueues_snapshot_witness:
  "db_up demo_env
   \<and> fst (triggerInstantDigest demo_env 1 101 demo_world) = Returned ()
   \<and> map job_type (jobQueue (snd (triggerInstantDigest demo_env 1 101 demo_world)))
       = [DailyDigest 1, DailyDigest 99, WeeklyDigest 1, InstantDigest 1 101 [13]]
   \<and> triggerInstantDigest demo_env 2 102 demo_world = (Returned (), demo_world)"
proof -
  have up: "db_up demo_env"
    by (simp add: demo_env_def)
  have run: "triggerInstantDigest demo_env 1 101 demo_world =
      (Returned (),
       demo_world\<lparr>clock := 1699827200002, reads := 2, next_uuid := 2001,
         jobQueue := jobQueue demo_world @
           [\<lparr>job_id = 2000, job_type = InstantDigest 1 101 [13], status = Pending, attempts = 0,
             scheduledFor = 1699827200001, job_createdAt = 1699827200002\<rparr>]\<rparr>)"
    by (simp add: triggerInstantDigest_def enqueueJob_def new_Date_def demo_env_def
        demo_world_def Let_def)
  have idle: "triggerInstantDigest demo_env 2 102 demo_world = (Returned (), demo_world)"
    by (simp add: triggerInstantDigest_def demo_env_def demo_world_def Let_def)
  show ?thesis
    using up run idle
      triggerInstantDigest_enqueues_snapshot [OF up run]
      triggerInstantDigest_enqueues_snapshot [OF up idle]
    by (simp add: demo_world_def)
qed

section \<open>The scheduled digest, the database answering\<close>

text \<open>
  The primitives as equations, then the loop body of \<^verbatim>\<open>processScheduledDigest\<close> for one
  subscriber and, by induction on the snapshot, the loop: the messages logged are those
  of the subscribers with new updates, in order, and a row's watermark is set exactly
  when a subscriber of the snapshot with the row's id had its digest sent.
\<close>

lemma sendEmail_eq:
  "sendEmail e m w = (accepted e m, w\<lparr>mail_log := mail_log w @ [(m, accepted e m)]\<rparr>)"
  by (simp add: sendEmail_def accepted_def)

lemma getUpdatesWithMedia_up:
  "db_up e \<Longrightarrow> getUpdatesWithMedia e ids w = (Returned (withMedia w ids), w)"
  by (simp add: getUpdatesWithMedia_def withMedia_def Let_def)

lemma updateLastSentAt_up:
  "db_up e \<Longrightarrow> ids \<noteq> [] \<Longrightarrow>
   updateLastSentAt e ids w =
     (Returned (),
      (snd (new_Date e w))\<lparr>subscriptions :=
         map (\<lambda>s. if sub_id s \<in> set ids then s\<lparr>lastSentAt := Some (fst (new_Date e w))\<rparr> else s)
             (subscriptions w)\<rparr>)"
  by (simp add: updateLastSentAt_def Let_def split_beta new_Date_fields)

lemma newUpdatesFor_cong:
  "updates w1 = updates w \<Longrightarrow> newUpdatesFor pid s w1 = newUpdatesFor pid s w"
  by (simp add: newUpdatesFor_def)

lemma digestMailFor_cong:
  "updates w1 = updates w \<Longrightarrow> images w1 = images w \<Longrightarrow> links w1 = links w \<Longrightarrow>
   digestMailFor pid f ws we w1 s = digestMailFor pid f ws we w s"
  by (simp add: digestMailFor_def withMedia_def newUpdatesFor_def)

lemma digestSubscriber_up:
  assumes "db_up e"
  shows "digestSubscriber e pid f ws we s w =
     (if newUpdatesFor pid s w = [] then (Returned (), w)
      else if accepted e (digestMailFor pid f ws we w s)
      then (Returned (),
            (snd (new_Date e w))
              \<lparr>mail_log := mail_log w @ [(digestMailFor pid f ws we w s, True)],
               subscriptions :=
                 map (\<lambda>r. if sub_id r = sub_id s then r\<lparr>lastSentAt := Some (fst (new_Date e w))\<rparr> else r)
                     (subscriptions w)\<rparr>)
      else (Returned (), w\<lparr>mail_log := mail_log w @ [(digestMailFor pid f ws we w s, False)]\<rparr>))"
  using assms
  by (simp add: digestSubscriber_def Let_def newUpdatesFor_def[symmetric] getUpdatesWithMedia_up
      sendDailyDigest_def sendWeeklyDigest_def sendEmail_eq digestMailFor_def updateLastSentAt_up
      new_Date_def)

lemma digestSent_cong:
  "updates w1 = updates w \<Longrightarrow> images w1 = images w \<Longrightarrow> links w1 = links w \<Longrightarrow>
   digestSent e pid f ws we w1 s = digestSent e pid f ws we w s"
  by (simp add: digestSent_def digestMailFor_def withMedia_def newUpdatesFor_def)

lemma digestSubscriber_step:
  assumes up: "db_up e"
  obtains w1 where "digestSubscriber e pid f ws we s w = (Returned (), w1)"
    and "mail_log w1 = mail_log w @
           (if newUpdatesFor pid s w = [] then []
            else [(digestMailFor pid f ws we w s, accepted e (digestMailFor pid f ws we w s))])"
    and "updates w1 = updates w" and "images w1 = images w" and "links w1 = links w"
    and "projects w1 = projects w" and "jobQueue w1 = jobQueue w" and "next_uuid w1 = next_uuid w"
    and "clock w \<le> clock w1"
    and "subscriptions w1 =
           map (\<lambda>r. if sub_id r = sub_id s \<and> digestSent e pid f ws we w s
                     then r\<lparr>lastSentAt := Some (clock w1)\<rparr> else r) (subscriptions w)"
proof -
  let ?w1 = "snd (digestSubscriber e pid f ws we s w)"
  have eq: "digestSubscriber e pid f ws we s w = (Returned (), ?w1)"
    using digestSubscriber_up[OF up, of pid f ws we s w] by (simp split: if_splits)
  have w1: "?w1 =
     (if newUpdatesFor pid s w = [] then w
      else if accepted e (digestMailFor pid f ws we w s)
      then (snd (new_Date e w))
              \<lparr>mail_log := mail_log w @ [(digestMailFor pid f ws we w s, True)],
               subscriptions :=
                 map (\<lambda>r. if sub_id r = sub_id s then r\<lparr>lastSentAt := Some (fst (new_Date e w))\<rparr> else r)
                     (subscriptions w)\<rparr>
      else w\<lparr>mail_log := mail_log w @ [(digestMailFor pid f ws we w s, False)]\<rparr>)"
    using digestSubscriber_up[OF up, of pid f ws we s w] by (simp split: if_splits)
  show thesis
  proof (rule that[of ?w1])
    show "digestSubscriber e pid f ws we s w = (Returned (), ?w1)" by (rule eq)
    show "mail_log ?w1 = mail_log w @
           (if newUpdatesFor pid s w = [] then []
            else [(digestMailFor pid f ws we w s, accepted e (digestMailFor pid f ws we w s))])"
      by (simp add: w1)
    show "updates ?w1 = updates w" by (simp add: w1 new_Date_fields)
    show "images ?w1 = images w" by (simp add: w1 new_Date_fields)
    show "links ?w1 = links w" by (simp add: w1 new_Date_fields)
    show "projects ?w1 = projects w" by (simp add: w1 new_Date_fields)
    show "jobQueue ?w1 = jobQueue w" by (simp add: w1 new_Date_fields)
    show "next_uuid ?w1 = next_uuid w" by (simp add: w1 new_Date_fields)
    show "clock w \<le> clock ?w1" by (simp add: w1 new_Date_fields new_Date_later)
    show "subscriptions ?w1 =
           map (\<lambda>r. if sub_id r = sub_id s \<and> digestSent e pid f ws we w s
                     then r\<lparr>lastSentAt := Some (clock ?w1)\<rparr> else r) (subscriptions w)"
      by (simp add: w1 new_Date_fields digestSent_def)
  qed
qed

lemma digestSubscribers_up:
  assumes up: "db_up e"
  shows "\<exists>w'. digestSubscribers e pid f ws we ss w = (Returned (), w')
     \<and> mail_log w' = mail_log w @
         map (\<lambda>s. (digestMailFor pid f ws we w s, accepted e (digestMailFor pid f ws we w s)))
             (filter (\<lambda>s. newUpdatesFor pid s w \<noteq> []) ss)
     \<and> updates w' = updates w \<and> images w' = images w \<and> links w' = links w
     \<and> projects w' = projects w \<and> jobQueue w' = jobQueue w \<and> next_uuid w' = next_uuid w
     \<and> clock w \<le> clock w'
     \<and> list_all2 (rowAfterDigest e pid f ws we ss w w') (subscriptions w) (subscriptions w')"
proof (induction ss arbitrary: w)
  case Nil
  show ?case by (simp add: rowAfterDigest_def list_all2_refl)
next
  case (Cons s ss)
  obtain w1 where step: "digestSubscriber e pid f ws we s w = (Returned (), w1)"
    and log1: "mail_log w1 = mail_log w @
           (if newUpdatesFor pid s w = [] then []
            else [(digestMailFor pid f ws we w s, accepted e (digestMailFor pid f ws we w s))])"
    and tabs: "updates w1 = updates w" "images w1 = images w" "links w1 = links w"
    and rest1: "projects w1 = projects w" "jobQueue w1 = jobQueue w" "next_uuid w1 = next_uuid w"
    and clk1: "clock w \<le> clock w1"
    and subs1: "subscriptions w1 =
           map (\<lambda>r. if sub_id r = sub_id s \<and> digestSent e pid f ws we w s
                     then r\<lparr>lastSentAt := Some (clock w1)\<rparr> else r) (subscriptions w)"
    by (rule digestSubscriber_step[OF up])
  from Cons.IH[of w1] obtain w' where
    run: "digestSubscribers e pid f ws we ss w1 = (Returned (), w')"
    and log: "mail_log w' = mail_log w1 @
         map (\<lambda>s. (digestMailFor pid f ws we w1 s, accepted e (digestMailFor pid f ws we w1 s)))
             (filter (\<lambda>s. newUpdatesFor pid s w1 \<noteq> []) ss)"
    and tabs': "updates w' = updates w1" "images w' = images w1" "links w' = links w1"
    and rest': "projects w' = projects w1" "jobQueue w' = jobQueue w1" "next_uuid w' = next_uuid w1"
    and clk': "clock w1 \<le> clock w'"
    and rows: "list_all2 (rowAfterDigest e pid f ws we ss w1 w') (subscriptions w1) (subscriptions w')"
    by blast
  have c1: "\<And>x. newUpdatesFor pid x w1 = newUpdatesFor pid x w"
    by (rule newUpdatesFor_cong[OF tabs(1)])
  have c2: "\<And>x. digestMailFor pid f ws we w1 x = digestMailFor pid f ws we w x"
    by (rule digestMailFor_cong[OF tabs])
  have c3: "\<And>x. digestSent e pid f ws we w1 x = digestSent e pid f ws we w x"
    by (rule digestSent_cong[OF tabs])
  let ?g = "\<lambda>r. if sub_id r = sub_id s \<and> digestSent e pid f ws we w s
                     then r\<lparr>lastSentAt := Some (clock w1)\<rparr> else r"
  have "list_all2 (\<lambda>r r'. rowAfterDigest e pid f ws we ss w1 w' (?g r) r') (subscriptions w) (subscriptions w')"
    using rows unfolding subs1 by (simp add: list_all2_map1)
  then have rows2: "list_all2 (rowAfterDigest e pid f ws we (s # ss) w w') (subscriptions w) (subscriptions w')"
  proof (rule list_all2_mono)
    fix r r'
    assume "rowAfterDigest e pid f ws we ss w1 w' (?g r) r'"
    then show "rowAfterDigest e pid f ws we (s # ss) w w' r r'"
      using clk1 clk' unfolding rowAfterDigest_def c3
      by (auto split: if_splits option.splits)
  qed
  have "digestSubscribers e pid f ws we (s # ss) w = (Returned (), w')"
    using step run by simp
  moreover have "mail_log w' = mail_log w @
         map (\<lambda>s. (digestMailFor pid f ws we w s, accepted e (digestMailFor pid f ws we w s)))
             (filter (\<lambda>s. newUpdatesFor pid s w \<noteq> []) (s # ss))"
    unfolding log log1 c1 c2 by simp
  ultimately show ?case
    using tabs tabs' rest1 rest' clk1 clk' rows2 by simp
qed

lemma processScheduledDigest_down:
  "\<not> db_up e \<Longrightarrow> processScheduledDigest e pid f w = (Threw DbUnavailable, w)"
  by (simp add: processScheduledDigest_def getProject_def)

lemma processScheduledDigest_no_project:
  "db_up e \<Longrightarrow> find (\<lambda>p. proj_id p = pid) (projects w) = None \<Longrightarrow>
   processScheduledDigest e pid f w = (Threw (ProjectNotFound pid), w)"
  by (simp add: processScheduledDigest_def getProject_def)

lemma processScheduledDigest_up:
  "db_up e \<Longrightarrow> find (\<lambda>p. proj_id p = pid) (projects w) = Some proj \<Longrightarrow>
   processScheduledDigest e pid f w =
     (if filter (\<lambda>s. sub_projectId s = pid \<and> frequency s = f) (subscriptions w) = []
      then (Returned (), w)
      else digestSubscribers e pid f (fst (new_Date e w) - 604800000) (fst (new_Date e w))
             (filter (\<lambda>s. sub_projectId s = pid \<and> frequency s = f) (subscriptions w))
             (snd (new_Date e w)))"
  by (simp add: processScheduledDigest_def getProject_def Let_def split_beta)

lemma list_all2_in_set1:
  "list_all2 P xs ys \<Longrightarrow> x \<in> set xs \<Longrightarrow> \<exists>y\<in>set ys. P x y"
  by (induction rule: list_all2_induct) auto

lemma list_all2_same_map:
  "list_all2 P xs ys \<Longrightarrow> (\<And>x y. P x y \<Longrightarrow> f y = f x) \<Longrightarrow> map f ys = map f xs"
  by (induction rule: list_all2_induct) auto

lemma distinct_map_eq:
  "distinct (map f xs) \<Longrightarrow> x \<in> set xs \<Longrightarrow> y \<in> set xs \<Longrightarrow> f x = f y \<Longrightarrow> x = y"
  by (meson distinct_map inj_onD)

lemma mail_to_digestMailFor: "mail_to (digestMailFor pid f ws we w s) = email s"
  by (simp add: digestMailFor_def)

text \<open>What processScheduledDigest leaves: a summary valid in every case.\<close>

lemma processScheduledDigest_cases:
  obtains (idle) "snd (processScheduledDigest e pid f w) = w" "fst (processScheduledDigest e pid f w) \<noteq> Returned () \<or> filter (\<lambda>s. sub_projectId s = pid \<and> frequency s = f) (subscriptions w) = []"
  | (ran) proj w' where "db_up e" "find (\<lambda>p. proj_id p = pid) (projects w) = Some proj"
      "filter (\<lambda>s. sub_projectId s = pid \<and> frequency s = f) (subscriptions w) \<noteq> []"
      "processScheduledDigest e pid f w = (Returned (), w')"
      "mail_log w' = mail_log w @
         map (\<lambda>s. (digestMailFor pid f (fst (new_Date e w) - 604800000) (fst (new_Date e w)) w s,
                   accepted e (digestMailFor pid f (fst (new_Date e w) - 604800000) (fst (new_Date e w)) w s)))
             (filter (\<lambda>s. newUpdatesFor pid s w \<noteq> [])
                (filter (\<lambda>s. sub_projectId s = pid \<and> frequency s = f) (subscriptions w)))"
      "clock w \<le> clock w'"
      "jobQueue w' = jobQueue w"
      "list_all2 (rowAfterDigest e pid f (fst (new_Date e w) - 604800000) (fst (new_Date e w))
                  (filter (\<lambda>s. sub_projectId s = pid \<and> frequency s = f) (subscriptions w)) w w')
         (subscriptions w) (subscriptions w')"
proof (cases "db_up e")
  case False
  then show ?thesis using idle by (simp add: processScheduledDigest_down)
next
  case up: True
  show ?thesis
  proof (cases "find (\<lambda>p. proj_id p = pid) (projects w)")
    case None
    then show ?thesis using idle up by (simp add: processScheduledDigest_no_project)
  next
    case (Some proj)
    let ?ss = "filter (\<lambda>s. sub_projectId s = pid \<and> frequency s = f) (subscriptions w)"
    show ?thesis
    proof (cases "?ss = []")
      case True
      then show ?thesis using idle processScheduledDigest_up[OF up Some, of f] by simp
    next
      case False
      let ?w0 = "snd (new_Date e w)"
      let ?ws = "fst (new_Date e w) - 604800000" and ?we = "fst (new_Date e w)"
      from digestSubscribers_up[OF up, of pid f ?ws ?we ?ss ?w0]
      obtain w' where run: "digestSubscribers e pid f ?ws ?we ?ss ?w0 = (Returned (), w')"
        and log: "mail_log w' = mail_log ?w0 @
           map (\<lambda>s. (digestMailFor pid f ?ws ?we ?w0 s, accepted e (digestMailFor pid f ?ws ?we ?w0 s)))
               (filter (\<lambda>s. newUpdatesFor pid s ?w0 \<noteq> []) ?ss)"
        and clk: "clock ?w0 \<le> clock w'" and jq: "jobQueue w' = jobQueue ?w0"
        and rows: "list_all2 (rowAfterDigest e pid f ?ws ?we ?ss ?w0 w') (subscriptions ?w0) (subscriptions w')"
        by blast
      have c1: "\<And>x. newUpdatesFor pid x ?w0 = newUpdatesFor pid x w"
        by (simp add: newUpdatesFor_def new_Date_fields)
      have c2: "\<And>x. digestMailFor pid f ?ws ?we ?w0 x = digestMailFor pid f ?ws ?we w x"
        by (simp add: digestMailFor_def withMedia_def newUpdatesFor_def new_Date_fields)
      have c3: "\<And>x. digestSent e pid f ?ws ?we ?w0 x = digestSent e pid f ?ws ?we w x"
        by (simp add: digestSent_def c1 c2)
      have clk0: "clock w \<le> clock ?w0" by (simp add: new_Date_fields new_Date_later)
      have rows': "list_all2 (rowAfterDigest e pid f ?ws ?we ?ss w w') (subscriptions w) (subscriptions w')"
        using rows unfolding new_Date_fields
      proof (rule list_all2_mono)
        fix r r' assume "rowAfterDigest e pid f ?ws ?we ?ss ?w0 w' r r'"
        then show "rowAfterDigest e pid f ?ws ?we ?ss w w' r r'"
          using clk0 unfolding rowAfterDigest_def c3 by (auto split: if_splits option.splits)
      qed
      show ?thesis
      proof (rule ran[OF up Some False])
        show "processScheduledDigest e pid f w = (Returned (), w')"
          using processScheduledDigest_up[OF up Some, of f] False run by simp
        show "mail_log w' = mail_log w @
         map (\<lambda>s. (digestMailFor pid f ?ws ?we w s, accepted e (digestMailFor pid f ?ws ?we w s)))
             (filter (\<lambda>s. newUpdatesFor pid s w \<noteq> []) ?ss)"
          using log unfolding c1 c2 by (simp add: new_Date_fields)
        show "clock w \<le> clock w'" using clk clk0 by simp
        show "jobQueue w' = jobQueue w" using jq by (simp add: new_Date_fields)
        show "list_all2 (rowAfterDigest e pid f ?ws ?we ?ss w w') (subscriptions w) (subscriptions w')"
          by (rule rows')
      qed
    qed
  qed
qed

lemma rowAfterDigest_same_id:
  "rowAfterDigest e pid f ws we ss w w' r r' \<Longrightarrow> sub_id r' = sub_id r"
  by (auto simp: rowAfterDigest_def split: if_splits option.splits)

lemma rowAfterDigest_same_email:
  "rowAfterDigest e pid f ws we ss w w' r r' \<Longrightarrow> email r' = email r"
  by (auto simp: rowAfterDigest_def split: if_splits option.splits)

lemma new_mail_append: "mail_log w' = mail_log w @ ms \<Longrightarrow> new_mail w w' = ms"
  by (simp add: new_mail_def)

lemma new_mail_same: "new_mail w w = []"
  by (simp add: new_mail_def)

lemma newUpdatesFor_none:
  assumes "lastSentAt s = Some t" and "\<forall>u\<in>set (updates w). upd_projectId u = pid \<longrightarrow> upd_createdAt u \<le> t"
  shows "newUpdatesFor pid s w = []"
  using assms by (auto simp: newUpdatesFor_def filter_empty_conv)

section \<open>No empty digest\<close>

text \<open>A subscriber of the project for whom the query finds no update: nothing is sent
  to the address and the row stays.\<close>

lemma processScheduledDigest_no_new_updates:
  assumes ids: "distinct (map sub_id (subscriptions w))"
    and keys: "distinct (map (\<lambda>s. (sub_projectId s, email s)) (subscriptions w))"
    and row: "s \<in> set (subscriptions w)" and proj: "sub_projectId s = pid"
    and none: "newUpdatesFor pid s w = []"
    and run: "processScheduledDigest e pid f w = (r, w')"
  shows "\<not> list_ex (\<lambda>(m, ok). mail_to m = email s) (new_mail w w')
       \<and> s \<in> set (subscriptions w')
       \<and> map sub_id (subscriptions w') = map sub_id (subscriptions w)"
proof (cases rule: processScheduledDigest_cases[of e pid f w])
  case idle
  with run have "w' = w" by simp
  then show ?thesis using row by (simp add: new_mail_same)
next
  case (ran pr w2)
  let ?ss = "filter (\<lambda>s. sub_projectId s = pid \<and> frequency s = f) (subscriptions w)"
  let ?ws = "fst (new_Date e w) - 604800000" and ?we = "fst (new_Date e w)"
  have w2: "w2 = w'" using ran(4) run by simp
  have nm: "new_mail w w' =
         map (\<lambda>s. (digestMailFor pid f ?ws ?we w s, accepted e (digestMailFor pid f ?ws ?we w s)))
             (filter (\<lambda>s. newUpdatesFor pid s w \<noteq> []) ?ss)"
    using ran(5) unfolding w2 by (rule new_mail_append)
  have nomail: "\<not> list_ex (\<lambda>(m, ok). mail_to m = email s) (new_mail w w')"
  proof
    assume "list_ex (\<lambda>(m, ok). mail_to m = email s) (new_mail w w')"
    then obtain s' where s': "s' \<in> set (subscriptions w)" "sub_projectId s' = pid"
        "newUpdatesFor pid s' w \<noteq> []" "email s' = email s"
      unfolding nm by (auto simp: list_ex_iff mail_to_digestMailFor)
    have "s' = s"
      using distinct_map_eq[OF keys s'(1) row] s'(2,4) proj by simp
    with s'(3) none show False by simp
  qed
  have rows: "list_all2 (rowAfterDigest e pid f ?ws ?we ?ss w w') (subscriptions w) (subscriptions w')"
    using ran(8) unfolding w2 .
  from list_all2_in_set1[OF rows row] obtain r' where r': "r' \<in> set (subscriptions w')"
    and rel: "rowAfterDigest e pid f ?ws ?we ?ss w w' s r'" by blast
  have "\<not> list_ex (\<lambda>x. sub_id x = sub_id s \<and> digestSent e pid f ?ws ?we w x) ?ss"
  proof
    assume "list_ex (\<lambda>x. sub_id x = sub_id s \<and> digestSent e pid f ?ws ?we w x) ?ss"
    then obtain x where x: "x \<in> set (subscriptions w)" "sub_id x = sub_id s" "digestSent e pid f ?ws ?we w x"
      by (auto simp: list_ex_iff)
    have "x = s" using distinct_map_eq[OF ids x(1) row x(2)] .
    with x(3) none show False by (simp add: digestSent_def)
  qed
  with rel have "r' = s" by (simp add: rowAfterDigest_def)
  with r' have kept: "s \<in> set (subscriptions w')" by simp
  have same: "map sub_id (subscriptions w') = map sub_id (subscriptions w)"
    using rows by (rule list_all2_same_map) (rule rowAfterDigest_same_id)
  show ?thesis using nomail kept same by simp
qed

text \<open>
  C5. A subscriber of the project whose watermark is at or after the creation time of
  every update of the project (the subscription ids and the pairs of project and
  address being unique, as the table's keys make them): a run of
  \<^verbatim>\<open>processScheduledDigest\<close> for the project hands no message addressed to the
  subscriber to \<^verbatim>\<open>sendEmail\<close>, and the subscriber's row, watermark included, is in
  the table afterwards as it was, under the same id.
\<close>

theorem processScheduledDigest_skips_up_to_date:
  assumes ids: "distinct (map sub_id (subscriptions w))"
    and keys: "distinct (map (\<lambda>s. (sub_projectId s, email s)) (subscriptions w))"
    and row: "s \<in> set (subscriptions w)" and proj: "sub_projectId s = pid"
    and wm: "lastSentAt s = Some t"
    and recent: "\<forall>u\<in>set (updates w). upd_projectId u = pid \<longrightarrow> upd_createdAt u \<le> t"
    and run: "processScheduledDigest e pid f w = (r, w')"
  shows "\<not> list_ex (\<lambda>(m, ok). mail_to m = email s) (new_mail w w')
       \<and> s \<in> set (subscriptions w')
       \<and> map sub_id (subscriptions w') = map sub_id (subscriptions w)"
  by (rule processScheduledDigest_no_new_updates
        [OF ids keys row proj newUpdatesFor_none [OF wm recent] run])

theorem processScheduledDigest_skips_up_to_date_witness:
  "distinct (map sub_id (subscriptions demo_world))
   \<and> distinct (map (\<lambda>s. (sub_projectId s, email s)) (subscriptions demo_world))
   \<and> subscriptions demo_world ! 2 \<in> set (subscriptions demo_world)
   \<and> sub_projectId (subscriptions demo_world ! 2) = 1
   \<and> lastSentAt (subscriptions demo_world ! 2) = Some 1699827100000
   \<and> filter (\<lambda>u. upd_projectId u = 1 \<and> 1699827100000 < upd_createdAt u) (updates demo_world) = []
   \<and> email (subscriptions demo_world ! 2) = ''c@x.com''
   \<and> \<not> list_ex (\<lambda>(m, ok). mail_to m = ''c@x.com'')
         (new_mail demo_world (snd (processScheduledDigest demo_env 1 ''daily'' demo_world)))
   \<and> subscriptions demo_world ! 2
       \<in> set (subscriptions (snd (processScheduledDigest demo_env 1 ''daily'' demo_world)))
   \<and> map (\<lambda>(m, ok). (mail_to m, ok))
        (new_mail demo_world (snd (processScheduledDigest demo_env 1 ''daily'' demo_world)))
       = [(''a@x.com'', True), (''b@x.com'', False), (''e@x.com'', True)]"
proof -
  have h1: "distinct (map sub_id (subscriptions demo_world))" by code_simp
  have h2: "distinct (map (\<lambda>s. (sub_projectId s, email s)) (subscriptions demo_world))" by code_simp
  have h3: "subscriptions demo_world ! 2 \<in> set (subscriptions demo_world)" by code_simp
  have h4: "sub_projectId (subscriptions demo_world ! 2) = 1" by code_simp
  have h5: "lastSentAt (subscriptions demo_world ! 2) = Some 1699827100000" by code_simp
  have h6: "\<forall>u\<in>set (updates demo_world). upd_projectId u = 1 \<longrightarrow> upd_createdAt u \<le> 1699827100000"
    by code_simp
  have h6': "filter (\<lambda>u. upd_projectId u = 1 \<and> 1699827100000 < upd_createdAt u) (updates demo_world) = []"
    by code_simp
  have em: "email (subscriptions demo_world ! 2) = ''c@x.com''" by code_simp
  have ran: "map (\<lambda>(m, ok). (mail_to m, ok))
        (new_mail demo_world (snd (processScheduledDigest demo_env 1 ''daily'' demo_world)))
       = [(''a@x.com'', True), (''b@x.com'', False), (''e@x.com'', True)]" by code_simp
  from processScheduledDigest_skips_up_to_date
         [OF h1 h2 h3 h4 h5 h6 surjective_pairing, of demo_env "''daily''"]
  show ?thesis
    using h1 h2 h3 h4 h5 h6' em ran by simp
qed

section \<open>Updates since the watermark\<close>

lemma filter_key_distinct:
  "distinct (map f xs) \<Longrightarrow> y \<in> set xs \<Longrightarrow> filter (\<lambda>s. f s = f y) xs = [y]"
proof (induction xs)
  case Nil
  then show ?case by simp
next
  case (Cons a xs)
  show ?case
  proof (cases "a = y")
    case True
    with Cons.prems have "\<forall>s\<in>set xs. f s \<noteq> f y" by (auto simp: image_iff)
    then have "filter (\<lambda>s. f s = f y) xs = []" by (simp add: filter_empty_conv)
    with True show ?thesis by simp
  next
    case False
    with Cons.prems have y: "y \<in> set xs" and "f a \<noteq> f y" by (auto simp: image_iff)
    with Cons show ?thesis by simp
  qed
qed

lemma filter_by_ids_of_filter:
  assumes "distinct (map f xs)"
  shows "filter (\<lambda>x. f x \<in> set (map f (filter P xs))) xs = filter P xs"
proof (rule filter_cong[OF refl])
  fix x assume x: "x \<in> set xs"
  show "(f x \<in> set (map f (filter P xs))) = P x"
  proof
    assume "f x \<in> set (map f (filter P xs))"
    then obtain y where y: "y \<in> set xs" "P y" "f y = f x" by auto
    have "y = x" using distinct_map_eq[OF assms y(1) x y(3)] .
    with y(2) show "P x" by simp
  next
    assume "P x" with x show "f x \<in> set (map f (filter P xs))" by auto
  qed
qed

lemma updates_of_digestMailFor:
  assumes "distinct (map upd_id (updates w))"
  shows "map uwm_update (mail_updates (digestMailFor pid f ws we w s)) = newUpdatesFor pid s w"
proof -
  have "map uwm_update (withMedia w (map upd_id (newUpdatesFor pid s w)))
      = filter (\<lambda>u. upd_id u \<in> set (map upd_id (newUpdatesFor pid s w))) (updates w)"
    by (simp add: withMedia_def comp_def)
  also have "\<dots> = newUpdatesFor pid s w"
    unfolding newUpdatesFor_def by (rule filter_by_ids_of_filter[OF assms])
  finally show ?thesis by (simp add: digestMailFor_def)
qed

lemma processScheduledDigest_returns:
  assumes "db_up e" and "find (\<lambda>p. proj_id p = pid) (projects w) = Some proj"
  shows "fst (processScheduledDigest e pid f w) = Returned ()"
  using digestSubscribers_up[OF assms(1), of pid f "fst (new_Date e w) - 604800000" "fst (new_Date e w)"
          "filter (\<lambda>s. sub_projectId s = pid \<and> frequency s = f) (subscriptions w)" "snd (new_Date e w)"]
  by (auto simp: processScheduledDigest_up[OF assms])

text \<open>A subscriber of the snapshot for whom the query finds updates: one message, made
  of those updates.\<close>

lemma processScheduledDigest_one_digest:
  assumes up: "db_up e"
    and project: "find (\<lambda>p. proj_id p = pid) (projects w) = Some proj"
    and ids: "distinct (map sub_id (subscriptions w))"
    and keys: "distinct (map (\<lambda>s. (sub_projectId s, email s)) (subscriptions w))"
    and uids: "distinct (map upd_id (updates w))"
    and row: "s \<in> set (subscriptions w)" and sp: "sub_projectId s = pid" and sf: "frequency s = f"
    and new: "newUpdatesFor pid s w \<noteq> []"
    and run: "processScheduledDigest e pid f w = (r, w')"
  shows "\<exists>m ok. filter (\<lambda>(m, ok). mail_to m = email s) (new_mail w w') = [(m, ok)]
            \<and> map uwm_update (mail_updates m) = newUpdatesFor pid s w
            \<and> ok = accepted e m
            \<and> (ok \<longrightarrow> (\<exists>t. s\<lparr>lastSentAt := Some t\<rparr> \<in> set (subscriptions w') \<and> clock w \<le> t \<and> t \<le> clock w'))
            \<and> (\<not> ok \<longrightarrow> s \<in> set (subscriptions w'))"
proof -
  let ?ss = "filter (\<lambda>s. sub_projectId s = pid \<and> frequency s = f) (subscriptions w)"
  let ?ws = "fst (new_Date e w) - 604800000" and ?we = "fst (new_Date e w)"
  let ?mk = "\<lambda>s. (digestMailFor pid f ?ws ?we w s, accepted e (digestMailFor pid f ?ws ?we w s))"
  let ?key = "\<lambda>s. (sub_projectId s, email s)"
  have sin: "s \<in> set ?ss" using row sp sf by simp
  have ret: "r = Returned ()"
    using processScheduledDigest_returns[OF up project, of f] run by simp
  show ?thesis
  proof (cases rule: processScheduledDigest_cases[of e pid f w])
    case idle
    have "fst (processScheduledDigest e pid f w) = Returned ()"
      using ret run by simp
    with idle(2) have none: "?ss = []" by simp
    have False using sin unfolding none by simp
    then show ?thesis ..
  next
    case (ran pr w2)
    have w2: "w2 = w'" using ran(4) run by simp
    have nm: "new_mail w w' = map ?mk (filter (\<lambda>s. newUpdatesFor pid s w \<noteq> []) ?ss)"
      using ran(5) unfolding w2 by (rule new_mail_append)
    let ?new = "filter (\<lambda>s. newUpdatesFor pid s w \<noteq> []) ?ss"
    have snew: "s \<in> set ?new" using sin new by simp
    have dk: "distinct (map ?key ?new)"
      using keys by (simp add: distinct_map_filter)
    have "filter (\<lambda>(m, ok). mail_to m = email s) (new_mail w w')
        = map ?mk (filter (\<lambda>x. email x = email s) ?new)"
      unfolding nm by (simp add: filter_map comp_def mail_to_digestMailFor)
    also have "filter (\<lambda>x. email x = email s) ?new = filter (\<lambda>x. ?key x = ?key s) ?new"
      using sp by (intro filter_cong) auto
    also have "\<dots> = [s]" by (rule filter_key_distinct[OF dk snew])
    finally have one: "filter (\<lambda>(m, ok). mail_to m = email s) (new_mail w w') = [?mk s]" by simp
    have rows: "list_all2 (rowAfterDigest e pid f ?ws ?we ?ss w w') (subscriptions w) (subscriptions w')"
      using ran(8) unfolding w2 .
    from list_all2_in_set1[OF rows row] obtain r' where r': "r' \<in> set (subscriptions w')"
      and rel: "rowAfterDigest e pid f ?ws ?we ?ss w w' s r'" by blast
    have ex: "list_ex (\<lambda>x. sub_id x = sub_id s \<and> digestSent e pid f ?ws ?we w x) ?ss
        = accepted e (digestMailFor pid f ?ws ?we w s)"
    proof
      assume "list_ex (\<lambda>x. sub_id x = sub_id s \<and> digestSent e pid f ?ws ?we w x) ?ss"
      then obtain x where x: "x \<in> set (subscriptions w)" "sub_id x = sub_id s" "digestSent e pid f ?ws ?we w x"
        by (auto simp: list_ex_iff)
      have "x = s" using distinct_map_eq[OF ids x(1) row x(2)] .
      with x(3) show "accepted e (digestMailFor pid f ?ws ?we w s)" by (simp add: digestSent_def)
    next
      assume "accepted e (digestMailFor pid f ?ws ?we w s)"
      then have "digestSent e pid f ?ws ?we w s" using new by (simp add: digestSent_def)
      with sin show "list_ex (\<lambda>x. sub_id x = sub_id s \<and> digestSent e pid f ?ws ?we w x) ?ss"
        unfolding list_ex_iff by blast
    qed
    have adv: "\<exists>t. s\<lparr>lastSentAt := Some t\<rparr> \<in> set (subscriptions w') \<and> clock w \<le> t \<and> t \<le> clock w'"
      if "accepted e (digestMailFor pid f ?ws ?we w s)"
      using rel r' that unfolding rowAfterDigest_def ex by (auto split: option.splits)
    have kept: "s \<in> set (subscriptions w')" if "\<not> accepted e (digestMailFor pid f ?ws ?we w s)"
      using rel r' that unfolding rowAfterDigest_def ex by simp
    have upd: "map uwm_update (mail_updates (digestMailFor pid f ?ws ?we w s)) = newUpdatesFor pid s w"
      by (rule updates_of_digestMailFor[OF uids])
    show ?thesis
      using one upd adv kept by auto
  qed
qed

text \<open>
  C3. A daily or weekly subscriber of the project, the database answering and the
  project existing: \<^verbatim>\<open>processScheduledDigest\<close> returns. When the project has updates
  created strictly after the subscriber's watermark (after the epoch when the watermark
  is \<^verbatim>\<open>null\<close>), exactly one message addressed to the subscriber is handed to
  \<^verbatim>\<open>sendEmail\<close>, and its updates are exactly those updates, whatever the frequency:
  the week of the weekly digest is not a bound. When the send succeeds the row's
  watermark becomes a time read from the clock during the run; when it fails the row is
  unchanged. When there is no such update, no message goes to the subscriber and the
  row is unchanged. When the watermark is \<^verbatim>\<open>null\<close> and every update was created
  after the epoch, the updates sent are all the updates of the project.
\<close>

theorem processScheduledDigest_sends_all_since_watermark:
  fixes s :: subscription and w :: world and pid :: uuid
  defines "since \<equiv> (case lastSentAt s of Some t \<Rightarrow> t | None \<Rightarrow> 0)"
  defines "due \<equiv> filter (\<lambda>u. upd_projectId u = pid \<and> since < upd_createdAt u) (updates w)"
  assumes up: "db_up e"
    and project: "find (\<lambda>p. proj_id p = pid) (projects w) = Some proj"
    and ids: "distinct (map sub_id (subscriptions w))"
    and keys: "distinct (map (\<lambda>s. (sub_projectId s, email s)) (subscriptions w))"
    and uids: "distinct (map upd_id (updates w))"
    and row: "s \<in> set (subscriptions w)" and sp: "sub_projectId s = pid" and sf: "frequency s = f"
    and run: "processScheduledDigest e pid f w = (r, w')"
  shows "r = Returned ()
     \<and> (due \<noteq> [] \<longrightarrow>
          (\<exists>m ok. filter (\<lambda>(m, ok). mail_to m = email s) (new_mail w w') = [(m, ok)]
            \<and> map uwm_update (mail_updates m) = due
            \<and> ok = accepted e m
            \<and> (ok \<longrightarrow> (\<exists>t. s\<lparr>lastSentAt := Some t\<rparr> \<in> set (subscriptions w') \<and> clock w \<le> t \<and> t \<le> clock w'))
            \<and> (\<not> ok \<longrightarrow> s \<in> set (subscriptions w'))))
     \<and> (due = [] \<longrightarrow>
          \<not> list_ex (\<lambda>(m, ok). mail_to m = email s) (new_mail w w') \<and> s \<in> set (subscriptions w'))
     \<and> (lastSentAt s = None \<and> (\<forall>u\<in>set (updates w). 0 < upd_createdAt u)
          \<longrightarrow> due = filter (\<lambda>u. upd_projectId u = pid) (updates w))"
proof -
  have due: "newUpdatesFor pid s w = due"
    by (simp add: newUpdatesFor_def due_def since_def)
  have ret: "r = Returned ()"
    using processScheduledDigest_returns[OF up project, of f] run by simp
  have all: "due = filter (\<lambda>u. upd_projectId u = pid) (updates w)"
    if "lastSentAt s = None" "\<forall>u\<in>set (updates w). 0 < upd_createdAt u"
    using that unfolding due_def since_def by (auto intro: filter_cong)
  have some: "\<exists>m ok. filter (\<lambda>(m, ok). mail_to m = email s) (new_mail w w') = [(m, ok)]
            \<and> map uwm_update (mail_updates m) = due
            \<and> ok = accepted e m
            \<and> (ok \<longrightarrow> (\<exists>t. s\<lparr>lastSentAt := Some t\<rparr> \<in> set (subscriptions w') \<and> clock w \<le> t \<and> t \<le> clock w'))
            \<and> (\<not> ok \<longrightarrow> s \<in> set (subscriptions w'))"
    if "due \<noteq> []"
    using processScheduledDigest_one_digest[OF up project ids keys uids row sp sf _ run] that
    unfolding due by blast
  have none: "\<not> list_ex (\<lambda>(m, ok). mail_to m = email s) (new_mail w w') \<and> s \<in> set (subscriptions w')"
    if "due = []"
    using processScheduledDigest_no_new_updates[OF ids keys row sp _ run] that
    unfolding due by blast
  show ?thesis
    using ret some none all by blast
qed

theorem processScheduledDigest_sends_all_since_watermark_witness:
  "db_up demo_env
   \<and> find (\<lambda>p. proj_id p = 1) (projects demo_world) = Some (projects demo_world ! 0)
   \<and> distinct (map sub_id (subscriptions demo_world))
   \<and> distinct (map (\<lambda>s. (sub_projectId s, email s)) (subscriptions demo_world))
   \<and> distinct (map upd_id (updates demo_world))
   \<and> subscriptions demo_world ! 0 \<in> set (subscriptions demo_world)
   \<and> sub_projectId (subscriptions demo_world ! 0) = 1
   \<and> frequency (subscriptions demo_world ! 0) = ''daily''
   \<and> lastSentAt (subscriptions demo_world ! 0) = Some 1698963200000
   \<and> map upd_id (filter (\<lambda>u. upd_projectId u = 1 \<and> 1698963200000 < upd_createdAt u) (updates demo_world))
       = [100, 101]
   \<and> map (\<lambda>(m, ok). (map (\<lambda>u. upd_id (uwm_update u)) (mail_updates m), ok))
        (filter (\<lambda>(m, ok). mail_to m = ''a@x.com'')
           (new_mail demo_world (snd (processScheduledDigest demo_env 1 ''daily'' demo_world))))
       = [([100, 101], True)]
   \<and> (subscriptions demo_world ! 0)\<lparr>lastSentAt := Some 1699827200002\<rparr>
       \<in> set (subscriptions (snd (processScheduledDigest demo_env 1 ''daily'' demo_world)))"
proof -
  have up: "db_up demo_env" by code_simp
  have pr: "find (\<lambda>p. proj_id p = 1) (projects demo_world) = Some (projects demo_world ! 0)" by code_simp
  have h1: "distinct (map sub_id (subscriptions demo_world))" by code_simp
  have h2: "distinct (map (\<lambda>s. (sub_projectId s, email s)) (subscriptions demo_world))" by code_simp
  have h3: "distinct (map upd_id (updates demo_world))" by code_simp
  have row: "subscriptions demo_world ! 0 \<in> set (subscriptions demo_world)" by code_simp
  have sp: "sub_projectId (subscriptions demo_world ! 0) = 1" by code_simp
  have sf: "frequency (subscriptions demo_world ! 0) = ''daily''" by code_simp
  have wm: "lastSentAt (subscriptions demo_world ! 0) = Some 1698963200000" by code_simp
  have due: "filter (\<lambda>u. upd_projectId u = 1 \<and>
                 (case lastSentAt (subscriptions demo_world ! 0) of Some t \<Rightarrow> t | None \<Rightarrow> 0) < upd_createdAt u)
               (updates demo_world) \<noteq> []" by code_simp
  have ids: "map upd_id (filter (\<lambda>u. upd_projectId u = 1 \<and> 1698963200000 < upd_createdAt u) (updates demo_world))
       = [100, 101]" by code_simp
  have sent: "map (\<lambda>(m, ok). (map (\<lambda>u. upd_id (uwm_update u)) (mail_updates m), ok))
        (filter (\<lambda>(m, ok). mail_to m = ''a@x.com'')
           (new_mail demo_world (snd (processScheduledDigest demo_env 1 ''daily'' demo_world))))
       = [([100, 101], True)]" by code_simp
  have adv: "(subscriptions demo_world ! 0)\<lparr>lastSentAt := Some 1699827200002\<rparr>
       \<in> set (subscriptions (snd (processScheduledDigest demo_env 1 ''daily'' demo_world)))" by code_simp
  from processScheduledDigest_sends_all_since_watermark
         [OF up pr h1 h2 h3 row sp sf surjective_pairing]
  show ?thesis
    using up pr h1 h2 h3 row sp sf wm ids sent adv by simp
qed

section \<open>Partial failure of a scheduled digest job\<close>

lemma markJobProcessing_up:
  "db_up e \<Longrightarrow> markJobProcessing e jid w =
     (Returned (), w\<lparr>jobQueue := map (\<lambda>j. if job_id j = jid
                                   then j\<lparr>status := Processing, attempts := attempts j + 1\<rparr>
                                   else j) (jobQueue w)\<rparr>)"
  by (simp add: markJobProcessing_def)

lemma markJobCompleted_up:
  "db_up e \<Longrightarrow> markJobCompleted e jid w =
     (Returned (), w\<lparr>jobQueue := map (\<lambda>j. if job_id j = jid then j\<lparr>status := Completed\<rparr> else j)
                              (jobQueue w)\<rparr>)"
  by (simp add: markJobCompleted_def)

lemma sent_to_digest_mails:
  "sent_to a (map (\<lambda>s. (digestMailFor pid f ws we w s, accepted e (digestMailFor pid f ws we w s))) xs)
   = list_ex (\<lambda>s. email s = a \<and> accepted e (digestMailFor pid f ws we w s)) xs"
  by (induction xs) (auto simp: sent_to_def mail_to_digestMailFor)

text \<open>
  C2. \<^verbatim>\<open>processJob\<close> on a queued daily or weekly digest job whose project exists, the
  database answering: whatever sends succeed or fail, it returns, and the job's row is
  \<^verbatim>\<open>completed\<close>. Row by row of the subscriptions: a row of the project and the
  frequency to whose address a message was reported as sent during the job has its
  watermark set to a time read from the clock during the job, and is otherwise
  unchanged; every other row, the rows whose send failed among them, is exactly as it
  was.
\<close>

theorem processJob_partial_failure_completes:
  assumes up: "db_up e"
    and kind: "job_type jb = DailyDigest pid \<and> f = ''daily'' \<or> job_type jb = WeeklyDigest pid \<and> f = ''weekly''"
    and queued: "job_id jb \<in> job_id ` set (jobQueue w)"
    and project: "find (\<lambda>p. proj_id p = pid) (projects w) = Some proj"
    and ids: "distinct (map sub_id (subscriptions w))"
    and keys: "distinct (map (\<lambda>s. (sub_projectId s, email s)) (subscriptions w))"
    and run: "processJob e jb w = (r, w')"
  shows "r = Returned ()
     \<and> job_id jb \<in> job_id ` set (jobQueue w')
     \<and> (\<forall>j\<in>set (jobQueue w'). job_id j = job_id jb \<longrightarrow> status j = Completed)
     \<and> list_all2
         (\<lambda>s s'. if sub_projectId s = pid \<and> frequency s = f \<and> sent_to (email s) (new_mail w w')
                  then (case lastSentAt s' of None \<Rightarrow> False
                        | Some t \<Rightarrow> s' = s\<lparr>lastSentAt := Some t\<rparr> \<and> clock w \<le> t \<and> t \<le> clock w')
                  else s' = s)
         (subscriptions w) (subscriptions w')"
proof -
  let ?w1 = "w\<lparr>jobQueue := map (\<lambda>j. if job_id j = job_id jb
                                   then j\<lparr>status := Processing, attempts := attempts j + 1\<rparr>
                                   else j) (jobQueue w)\<rparr>"
  let ?ss = "filter (\<lambda>s. sub_projectId s = pid \<and> frequency s = f) (subscriptions w)"
  let ?R = "\<lambda>w'. (\<lambda>s s'. if sub_projectId s = pid \<and> frequency s = f \<and> sent_to (email s) (new_mail w w')
                  then (case lastSentAt s' of None \<Rightarrow> False
                        | Some t \<Rightarrow> s' = s\<lparr>lastSentAt := Some t\<rparr> \<and> clock w \<le> t \<and> t \<le> clock w')
                  else s' = s)"
  have project1: "find (\<lambda>p. proj_id p = pid) (projects ?w1) = Some proj"
    using project by simp
  obtain w2 where dig: "processScheduledDigest e pid f ?w1 = (Returned (), w2)"
    using processScheduledDigest_returns[OF up project1, of f]
    by (cases "processScheduledDigest e pid f ?w1") simp
  have pj: "processJob e jb w = markJobCompleted e (job_id jb) w2"
    using kind dig up
    by (auto simp: processJob_def markJobProcessing_up markJobCompleted_up Let_def)
  have w': "w' = w2\<lparr>jobQueue := map (\<lambda>j. if job_id j = job_id jb then j\<lparr>status := Completed\<rparr> else j)
                              (jobQueue w2)\<rparr>" and r: "r = Returned ()"
    using run pj up by (simp_all add: markJobCompleted_up)
  have facts: "jobQueue w2 = jobQueue ?w1 \<and> clock w \<le> clock w2 \<and> list_all2 (?R w2) (subscriptions w) (subscriptions w2)"
  proof (cases rule: processScheduledDigest_cases[of e pid f ?w1])
    case idle
    then have "w2 = ?w1" using dig by simp
    then show ?thesis by (simp add: new_mail_def sent_to_def list_all2_refl)
  next
    case (ran pr w3)
    let ?ws = "fst (new_Date e ?w1) - 604800000" and ?we = "fst (new_Date e ?w1)"
    have w3: "w3 = w2" using ran(4) dig by simp
    have nm: "new_mail w w2 =
         map (\<lambda>s. (digestMailFor pid f ?ws ?we ?w1 s, accepted e (digestMailFor pid f ?ws ?we ?w1 s)))
             (filter (\<lambda>s. newUpdatesFor pid s ?w1 \<noteq> []) ?ss)"
      using ran(5) unfolding w3 by (simp add: new_mail_def)
    have rows: "list_all2 (rowAfterDigest e pid f ?ws ?we ?ss ?w1 w2) (subscriptions w) (subscriptions w2)"
      using ran(8) unfolding w3 by simp
    have "list_all2 (?R w2) (subscriptions w) (subscriptions w2)"
      using rows
    proof (rule list.rel_mono_strong)
      fix s s'
      assume s: "s \<in> set (subscriptions w)" and rel: "rowAfterDigest e pid f ?ws ?we ?ss ?w1 w2 s s'"
      have eq: "list_ex (\<lambda>x. sub_id x = sub_id s \<and> digestSent e pid f ?ws ?we ?w1 x) ?ss
          = (sub_projectId s = pid \<and> frequency s = f \<and> sent_to (email s) (new_mail w w2))"
      proof
        assume "list_ex (\<lambda>x. sub_id x = sub_id s \<and> digestSent e pid f ?ws ?we ?w1 x) ?ss"
        then obtain x where x: "x \<in> set (subscriptions w)" "sub_projectId x = pid" "frequency x = f"
            "sub_id x = sub_id s" "digestSent e pid f ?ws ?we ?w1 x"
          by (auto simp: list_ex_iff)
        have xs: "x = s" using distinct_map_eq[OF ids x(1) s x(4)] .
        have "list_ex (\<lambda>y. email y = email s \<and> accepted e (digestMailFor pid f ?ws ?we ?w1 y))
                (filter (\<lambda>s. newUpdatesFor pid s ?w1 \<noteq> []) ?ss)"
          unfolding list_ex_iff using x s xs by (auto simp: digestSent_def)
        then show "sub_projectId s = pid \<and> frequency s = f \<and> sent_to (email s) (new_mail w w2)"
          using x(2,3) xs unfolding nm sent_to_digest_mails by simp
      next
        assume a: "sub_projectId s = pid \<and> frequency s = f \<and> sent_to (email s) (new_mail w w2)"
        then obtain y where y: "y \<in> set (subscriptions w)" "sub_projectId y = pid" "frequency y = f"
            "newUpdatesFor pid y ?w1 \<noteq> []" "email y = email s" "accepted e (digestMailFor pid f ?ws ?we ?w1 y)"
          unfolding nm sent_to_digest_mails list_ex_iff by auto
        have "y = s" using distinct_map_eq[OF keys y(1) s] y(2,5) a by simp
        with y show "list_ex (\<lambda>x. sub_id x = sub_id s \<and> digestSent e pid f ?ws ?we ?w1 x) ?ss"
          unfolding list_ex_iff by (auto simp: digestSent_def)
      qed
      show "?R w2 s s'"
        using rel unfolding rowAfterDigest_def eq by (auto split: option.splits)
    qed
    then show ?thesis using ran(6,7) unfolding w3 by simp
  qed
  have nm': "new_mail w w' = new_mail w w2" by (simp add: w' new_mail_def)
  have "map job_id (jobQueue w') = map job_id (jobQueue w)"
    using facts by (simp add: w' comp_def if_distrib[of job_id])
  then have "set (map job_id (jobQueue w')) = set (map job_id (jobQueue w))"
    by simp
  then have "job_id jb \<in> job_id ` set (jobQueue w')"
    using queued by simp
  moreover have "\<forall>j\<in>set (jobQueue w'). job_id j = job_id jb \<longrightarrow> status j = Completed"
    by (auto simp: w')
  moreover have cw: "clock w' = clock w2" "subscriptions w' = subscriptions w2"
    by (simp_all add: w')
  have "list_all2 (?R w') (subscriptions w) (subscriptions w')"
    using facts unfolding nm' cw by simp
  ultimately show ?thesis using r by simp
qed

theorem processJob_partial_failure_completes_witness:
  "db_up demo_env
   \<and> job_type (jobQueue demo_world ! 0) = DailyDigest 1
   \<and> job_id (jobQueue demo_world ! 0) \<in> job_id ` set (jobQueue demo_world)
   \<and> find (\<lambda>p. proj_id p = 1) (projects demo_world) = Some (projects demo_world ! 0)
   \<and> distinct (map sub_id (subscriptions demo_world))
   \<and> distinct (map (\<lambda>s. (sub_projectId s, email s)) (subscriptions demo_world))
   \<and> fst (processJob demo_env (jobQueue demo_world ! 0) demo_world) = Returned ()
   \<and> map (\<lambda>j. (job_id j, status j)) (jobQueue (snd (processJob demo_env (jobQueue demo_world ! 0) demo_world)))
       = [(1000, Completed), (1001, Pending), (1002, Completed)]
   \<and> map (\<lambda>(m, ok). (mail_to m, ok))
        (new_mail demo_world (snd (processJob demo_env (jobQueue demo_world ! 0) demo_world)))
       = [(''a@x.com'', True), (''b@x.com'', False), (''e@x.com'', True)]
   \<and> map (\<lambda>s. (email s, lastSentAt s)) (subscriptions demo_world)
       = [(''a@x.com'', Some 1698963200000), (''b@x.com'', None), (''c@x.com'', Some 1699827100000),
          (''d@x.com'', None), (''e@x.com'', Some 1699700000000)]
   \<and> map (\<lambda>s. (email s, lastSentAt s))
        (subscriptions (snd (processJob demo_env (jobQueue demo_world ! 0) demo_world)))
       = [(''a@x.com'', Some 1699827200002), (''b@x.com'', None), (''c@x.com'', Some 1699827100000),
          (''d@x.com'', None), (''e@x.com'', Some 1699827200003)]"
proof -
  have up: "db_up demo_env" by code_simp
  have kind: "job_type (jobQueue demo_world ! 0) = DailyDigest 1 \<and> ''daily'' = ''daily''
      \<or> job_type (jobQueue demo_world ! 0) = WeeklyDigest 1 \<and> ''daily'' = ''weekly''" by code_simp
  have kind': "job_type (jobQueue demo_world ! 0) = DailyDigest 1" by code_simp
  have queued: "job_id (jobQueue demo_world ! 0) \<in> job_id ` set (jobQueue demo_world)" by code_simp
  have pr: "find (\<lambda>p. proj_id p = 1) (projects demo_world) = Some (projects demo_world ! 0)" by code_simp
  have h1: "distinct (map sub_id (subscriptions demo_world))" by code_simp
  have h2: "distinct (map (\<lambda>s. (sub_projectId s, email s)) (subscriptions demo_world))" by code_simp
  have r: "fst (processJob demo_env (jobQueue demo_world ! 0) demo_world) = Returned ()" by code_simp
  have st: "map (\<lambda>j. (job_id j, status j)) (jobQueue (snd (processJob demo_env (jobQueue demo_world ! 0) demo_world)))
       = [(1000, Completed), (1001, Pending), (1002, Completed)]" by code_simp
  have ml: "map (\<lambda>(m, ok). (mail_to m, ok))
        (new_mail demo_world (snd (processJob demo_env (jobQueue demo_world ! 0) demo_world)))
       = [(''a@x.com'', True), (''b@x.com'', False), (''e@x.com'', True)]" by code_simp
  have before: "map (\<lambda>s. (email s, lastSentAt s)) (subscriptions demo_world)
       = [(''a@x.com'', Some 1698963200000), (''b@x.com'', None), (''c@x.com'', Some 1699827100000),
          (''d@x.com'', None), (''e@x.com'', Some 1699700000000)]" by code_simp
  have after: "map (\<lambda>s. (email s, lastSentAt s))
        (subscriptions (snd (processJob demo_env (jobQueue demo_world ! 0) demo_world)))
       = [(''a@x.com'', Some 1699827200002), (''b@x.com'', None), (''c@x.com'', Some 1699827100000),
          (''d@x.com'', None), (''e@x.com'', Some 1699827200003)]" by code_simp
  from processJob_partial_failure_completes [OF up kind queued pr h1 h2 surjective_pairing]
  show ?thesis
    using up kind' queued pr h1 h2 r st ml before after by simp
qed

section \<open>Watermarks never decrease\<close>

text \<open>
  \<open>only_advances\<close> is reflexive and transitive and holds across every operation of a
  job-processing pass: the queue operations leave subscriptions and log alone, and the
  two digests write a watermark only for a subscriber whose send was reported as sent.
\<close>

lemma sent_to_append: "sent_to a (xs @ ys) = (sent_to a xs \<or> sent_to a ys)"
  by (simp add: sent_to_def)

lemma only_advancesI:
  assumes "clock w \<le> clock w'" and "mail_log w' = mail_log w @ ms"
    and "subscriptions w' = map g (subscriptions w)"
    and "\<And>r. r \<in> set (subscriptions w) \<Longrightarrow> kept_or_advanced w w' r (g r)"
  shows "only_advances w w'"
  using assms by (simp add: only_advances_def list_all2_map2 list_all2_same)

lemma only_advances_frame:
  assumes "clock w \<le> clock w'" and "mail_log w' = mail_log w @ ms"
    and "subscriptions w' = subscriptions w"
  shows "only_advances w w'"
  using assms by (simp add: only_advances_def list_all2_refl kept_or_advanced_def)

lemma only_advances_refl: "only_advances w w"
  by (rule only_advances_frame[of _ _ "[]"]) simp_all

lemma only_advances_log:
  assumes "only_advances w w'"
  shows "mail_log w' = mail_log w @ new_mail w w'"
proof -
  have "take (length (mail_log w)) (mail_log w') = mail_log w"
    using assms by (simp add: only_advances_def)
  then show ?thesis
    unfolding new_mail_def by (metis append_take_drop_id)
qed

lemma only_advances_trans:
  assumes a: "only_advances w w1" and b: "only_advances w1 w2"
  shows "only_advances w w2"
proof -
  have l1: "mail_log w1 = mail_log w @ new_mail w w1" by (rule only_advances_log[OF a])
  have l2: "mail_log w2 = mail_log w1 @ new_mail w1 w2" by (rule only_advances_log[OF b])
  have l: "mail_log w2 = mail_log w @ (new_mail w w1 @ new_mail w1 w2)"
    using l1 l2 by simp
  have nm: "new_mail w w2 = new_mail w w1 @ new_mail w1 w2"
    by (rule new_mail_append[OF l])
  have c: "clock w \<le> clock w1" "clock w1 \<le> clock w2"
    using a b by (simp_all add: only_advances_def)
  have r1: "list_all2 (kept_or_advanced w w1) (subscriptions w) (subscriptions w1)"
    and r2: "list_all2 (kept_or_advanced w1 w2) (subscriptions w1) (subscriptions w2)"
    using a b by (simp_all add: only_advances_def)
  have "list_all2 (kept_or_advanced w w2) (subscriptions w) (subscriptions w2)"
  proof (rule list_all2_trans[OF _ r1 r2])
    fix x y z
    assume "kept_or_advanced w w1 x y" and "kept_or_advanced w1 w2 y z"
    then show "kept_or_advanced w w2 x z"
      using c unfolding kept_or_advanced_def nm sent_to_append
      by (auto split: option.splits)
  qed
  moreover have "take (length (mail_log w)) (mail_log w2) = mail_log w"
    using l by simp
  ultimately show ?thesis using c by (simp add: only_advances_def)
qed

lemma kept_or_advanced_same_id: "kept_or_advanced w w' r r' \<Longrightarrow> sub_id r' = sub_id r"
  by (auto simp: kept_or_advanced_def split: option.splits)

lemma only_advances_ids:
  assumes "only_advances w w'"
  shows "map sub_id (subscriptions w') = map sub_id (subscriptions w)"
proof -
  have "list_all2 (kept_or_advanced w w') (subscriptions w) (subscriptions w')"
    using assms by (simp add: only_advances_def)
  then show ?thesis
    by (rule list_all2_same_map) (rule kept_or_advanced_same_id)
qed

lemma processScheduledDigest_only_advances:
  assumes ids: "distinct (map sub_id (subscriptions w))"
  shows "only_advances w (snd (processScheduledDigest e pid f w))"
proof (cases rule: processScheduledDigest_cases[of e pid f w])
  case idle
  then show ?thesis by (simp add: only_advances_refl)
next
  case (ran pr w')
  let ?ss = "filter (\<lambda>s. sub_projectId s = pid \<and> frequency s = f) (subscriptions w)"
  let ?ws = "fst (new_Date e w) - 604800000" and ?we = "fst (new_Date e w)"
  let ?mk = "\<lambda>s. (digestMailFor pid f ?ws ?we w s, accepted e (digestMailFor pid f ?ws ?we w s))"
  have nm: "new_mail w w' = map ?mk (filter (\<lambda>s. newUpdatesFor pid s w \<noteq> []) ?ss)"
    using ran(5) by (rule new_mail_append)
  have "list_all2 (kept_or_advanced w w') (subscriptions w) (subscriptions w')"
    using ran(8)
  proof (rule list.rel_mono_strong)
    fix r r'
    assume r: "r \<in> set (subscriptions w)" and rel: "rowAfterDigest e pid f ?ws ?we ?ss w w' r r'"
    show "kept_or_advanced w w' r r'"
    proof (cases "list_ex (\<lambda>x. sub_id x = sub_id r \<and> digestSent e pid f ?ws ?we w x) ?ss")
      case False
      with rel show ?thesis by (simp add: rowAfterDigest_def kept_or_advanced_def)
    next
      case True
      then obtain x where x: "x \<in> set (subscriptions w)" "x \<in> set ?ss" "sub_id x = sub_id r"
          "digestSent e pid f ?ws ?we w x"
        by (auto simp: list_ex_iff)
      have xr: "x = r" using distinct_map_eq[OF ids x(1) r x(3)] .
      have "list_ex (\<lambda>y. email y = email r \<and> accepted e (digestMailFor pid f ?ws ?we w y))
                (filter (\<lambda>s. newUpdatesFor pid s w \<noteq> []) ?ss)"
        unfolding list_ex_iff using x xr by (auto simp: digestSent_def)
      then have "sent_to (email r) (new_mail w w')"
        unfolding nm sent_to_digest_mails .
      with rel True show ?thesis
        by (auto simp: rowAfterDigest_def kept_or_advanced_def split: option.splits)
    qed
  qed
  then show ?thesis using ran(4,5,6) by (simp add: only_advances_def)
qed

lemma sendInstantBatch_eq:
  "sendInstantBatch e u batch w =
     (map (\<lambda>s. (sub_id s, accepted e (InstantUpdateMail (email s) u))) batch,
      w\<lparr>mail_log := mail_log w @
           map (\<lambda>s. (InstantUpdateMail (email s) u, accepted e (InstantUpdateMail (email s) u))) batch\<rparr>)"
  by (induction batch arbitrary: w) (simp_all add: sendInstantUpdate_def sendEmail_eq)

lemma instantBatches_eq:
  "instantBatches e u subs i acc w =
     (acc @ map sub_id (filter (\<lambda>s. accepted e (InstantUpdateMail (email s) u)) (drop i subs)),
      w\<lparr>mail_log := mail_log w @
           map (\<lambda>s. (InstantUpdateMail (email s) u, accepted e (InstantUpdateMail (email s) u)))
               (drop i subs)\<rparr>)"
proof (induction e u subs i acc w rule: instantBatches.induct)
  case (1 e u subs i acc w)
  show ?case
  proof (cases "i < length subs")
    case False
    then show ?thesis by (simp add: instantBatches.simps[of e u subs i acc w])
  next
    case True
    let ?ok = "\<lambda>s. accepted e (InstantUpdateMail (email s) u)"
    let ?mk = "\<lambda>s. (InstantUpdateMail (email s) u, accepted e (InstantUpdateMail (email s) u))"
    let ?batch = "take BATCH_SIZE (drop i subs)"
    have "drop (i + BATCH_SIZE) subs = drop BATCH_SIZE (drop i subs)"
      by (simp add: add.commute)
    then have split: "drop i subs = ?batch @ drop (i + BATCH_SIZE) subs"
      by (simp only: append_take_drop_id)
    have ids: "map fst (filter snd (map (\<lambda>s. (sub_id s, ?ok s)) ?batch)) = map sub_id (filter ?ok ?batch)"
      by (simp add: filter_map comp_def)
    have sb: "(map (\<lambda>s. (sub_id s, ?ok s)) ?batch, w\<lparr>mail_log := mail_log w @ map ?mk ?batch\<rparr>)
        = sendInstantBatch e u ?batch w"
      by (simp add: sendInstantBatch_eq)
    have "instantBatches e u subs i acc w =
        instantBatches e u subs (i + BATCH_SIZE) (acc @ map sub_id (filter ?ok ?batch))
          (w\<lparr>mail_log := mail_log w @ map ?mk ?batch\<rparr>)"
      using True ids
      by (simp add: instantBatches.simps[of e u subs i acc w] sendInstantBatch_eq Let_def)
    also have "\<dots> = (acc @ map sub_id (filter ?ok ?batch) @ map sub_id (filter ?ok (drop (i + BATCH_SIZE) subs)),
        w\<lparr>mail_log := mail_log w @ map ?mk ?batch @ map ?mk (drop (i + BATCH_SIZE) subs)\<rparr>)"
      using "1.IH"[OF True refl refl sb] by (simp add: ids)
    also have "\<dots> = (acc @ map sub_id (filter ?ok (drop i subs)),
        w\<lparr>mail_log := mail_log w @ map ?mk (drop i subs)\<rparr>)"
      by (subst (3 4) split) simp
    finally show ?thesis .
  qed
qed

lemma sent_to_instant_mails:
  "sent_to a (map (\<lambda>s. (InstantUpdateMail (email s) u, accepted e (InstantUpdateMail (email s) u))) xs)
   = list_ex (\<lambda>s. email s = a \<and> accepted e (InstantUpdateMail (email s) u)) xs"
  by (induction xs) (auto simp: sent_to_def)

lemma processInstantDigest_idle:
  assumes "\<not> db_up e \<or> find (\<lambda>p. proj_id p = pid) (projects w) = None \<or> withMedia w [uid] = []"
  shows "snd (processInstantDigest e pid uid sids w) = w"
proof (cases "db_up e")
  case False
  then show ?thesis by (simp add: processInstantDigest_def getProject_def)
next
  case up: True
  show ?thesis
  proof (cases "find (\<lambda>p. proj_id p = pid) (projects w)")
    case None
    then show ?thesis using up by (simp add: processInstantDigest_def getProject_def)
  next
    case (Some proj)
    with assms up have "withMedia w [uid] = []" by simp
    then show ?thesis
      using up Some by (simp add: processInstantDigest_def getProject_def getUpdatesWithMedia_up)
  qed
qed

lemma processInstantDigest_up:
  assumes up: "db_up e" and "find (\<lambda>p. proj_id p = pid) (projects w) = Some proj"
    and "withMedia w [uid] = u # rest"
  shows "processInstantDigest e pid uid sids w =
     updateLastSentAt e
       (map sub_id (filter (\<lambda>s. accepted e (InstantUpdateMail (email s) u))
                      (filter (\<lambda>s. sub_id s \<in> set sids) (subscriptions w))))
       (w\<lparr>mail_log := mail_log w @
            map (\<lambda>s. (InstantUpdateMail (email s) u, accepted e (InstantUpdateMail (email s) u)))
                (filter (\<lambda>s. sub_id s \<in> set sids) (subscriptions w))\<rparr>)"
  using assms
  by (simp add: processInstantDigest_def getProject_def getUpdatesWithMedia_up instantBatches_eq Let_def)

lemma processInstantDigest_only_advances:
  assumes ids: "distinct (map sub_id (subscriptions w))"
  shows "only_advances w (snd (processInstantDigest e pid uid sids w))"
proof (cases "\<not> db_up e \<or> find (\<lambda>p. proj_id p = pid) (projects w) = None \<or> withMedia w [uid] = []")
  case True
  then show ?thesis by (simp add: processInstantDigest_idle only_advances_refl)
next
  case False
  then obtain proj u rest where up: "db_up e"
    and pr: "find (\<lambda>p. proj_id p = pid) (projects w) = Some proj"
    and um: "withMedia w [uid] = u # rest"
    by (auto simp: neq_Nil_conv)
  let ?subs = "filter (\<lambda>s. sub_id s \<in> set sids) (subscriptions w)"
  let ?ok = "\<lambda>s. accepted e (InstantUpdateMail (email s) u)"
  let ?mk = "\<lambda>s. (InstantUpdateMail (email s) u, accepted e (InstantUpdateMail (email s) u))"
  let ?ids = "map sub_id (filter ?ok ?subs)"
  let ?w3 = "w\<lparr>mail_log := mail_log w @ map ?mk ?subs\<rparr>"
  have eq: "processInstantDigest e pid uid sids w = updateLastSentAt e ?ids ?w3"
    by (rule processInstantDigest_up[OF up pr um])
  show ?thesis
  proof (cases "?ids = []")
    case True
    then have "snd (processInstantDigest e pid uid sids w) = ?w3"
      unfolding eq by (simp add: updateLastSentAt_def)
    then show ?thesis
      by (simp add: only_advances_frame[of w ?w3 "map ?mk ?subs"])
  next
    case False
    let ?now = "fst (new_Date e ?w3)"
    let ?g = "\<lambda>s. if sub_id s \<in> set ?ids then s\<lparr>lastSentAt := Some ?now\<rparr> else s"
    let ?w4 = "(snd (new_Date e ?w3))\<lparr>subscriptions := map ?g (subscriptions ?w3)\<rparr>"
    have w4: "snd (processInstantDigest e pid uid sids w) = ?w4"
      unfolding eq updateLastSentAt_up[OF up False] by simp
    have clk: "clock w \<le> clock ?w4"
      using new_Date_later[of ?w3 e] by (simp add: new_Date_fields)
    have log: "mail_log ?w4 = mail_log w @ map ?mk ?subs"
      by (simp add: new_Date_fields)
    have nm: "new_mail w ?w4 = map ?mk ?subs"
      by (rule new_mail_append[OF log])
    have "only_advances w ?w4"
    proof (rule only_advancesI[OF clk log, of ?g])
      show "subscriptions ?w4 = map ?g (subscriptions w)" by simp
    next
      fix r assume r: "r \<in> set (subscriptions w)"
      show "kept_or_advanced w ?w4 r (?g r)"
      proof (cases "sub_id r \<in> set ?ids")
        case False
        then show ?thesis by (simp add: kept_or_advanced_def)
      next
        case True
        then obtain s where s: "s \<in> set (subscriptions w)" "s \<in> set ?subs" "?ok s" "sub_id s = sub_id r"
          by auto
        have sr: "s = r" using distinct_map_eq[OF ids s(1) r s(4)] .
        have "list_ex (\<lambda>s. email s = email r \<and> ?ok s) ?subs"
          unfolding list_ex_iff using s(2,3) sr by blast
        then have "sent_to (email r) (new_mail w ?w4)"
          unfolding nm sent_to_instant_mails .
        then show ?thesis
          using True clk by (simp add: kept_or_advanced_def new_Date_fields)
      qed
    qed
    then show ?thesis by (simp only: w4)
  qed
qed

lemma markJobProcessing_frame:
  "subscriptions (snd (markJobProcessing e jid w)) = subscriptions w
   \<and> mail_log (snd (markJobProcessing e jid w)) = mail_log w
   \<and> clock (snd (markJobProcessing e jid w)) = clock w"
  by (simp add: markJobProcessing_def)

lemma markJobCompleted_frame:
  "subscriptions (snd (markJobCompleted e jid w)) = subscriptions w
   \<and> mail_log (snd (markJobCompleted e jid w)) = mail_log w
   \<and> clock (snd (markJobCompleted e jid w)) = clock w"
  by (simp add: markJobCompleted_def)

lemma markJobFailed_frame:
  "subscriptions (snd (markJobFailed e jid w)) = subscriptions w
   \<and> mail_log (snd (markJobFailed e jid w)) = mail_log w
   \<and> clock w \<le> clock (snd (markJobFailed e jid w))"
  by (auto simp: markJobFailed_def Let_def split_beta new_Date_fields new_Date_later split: option.splits)

lemma frame_only_advances:
  assumes "subscriptions w' = subscriptions w \<and> mail_log w' = mail_log w \<and> clock w \<le> clock w'"
  shows "only_advances w w'"
  using assms by (intro only_advances_frame[of w w' "[]"]) simp_all

lemma frame_only_advances_eq:
  assumes "subscriptions w' = subscriptions w \<and> mail_log w' = mail_log w \<and> clock w' = clock w"
  shows "only_advances w w'"
  using assms by (intro only_advances_frame[of w w' "[]"]) simp_all

lemma markJobFailed_returns: "db_up e \<Longrightarrow> fst (markJobFailed e jid w) = Returned ()"
  by (simp add: markJobFailed_def Let_def split_beta split: option.splits)

lemma processJob_down:
  "\<not> db_up e \<Longrightarrow> processJob e jb w = (Threw DbUnavailable, w)"
  by (simp add: processJob_def markJobProcessing_def)

lemma processJob_up:
  assumes up: "db_up e"
  shows "processJob e jb w =
     (case digestOfJob e jb (snd (markJobProcessing e (job_id jb) w)) of
        (Returned u, w2) \<Rightarrow> (Returned (), snd (markJobCompleted e (job_id jb) w2))
      | (Threw x, w2) \<Rightarrow> (Threw x, snd (markJobFailed e (job_id jb) w2)))"
proof -
  define w1 where "w1 = snd (markJobProcessing e (job_id jb) w)"
  have mp: "markJobProcessing e (job_id jb) w = (Returned (), w1)"
    using up by (simp add: w1_def markJobProcessing_def)
  obtain r2 w2 where d: "digestOfJob e jb w1 = (r2, w2)"
    by (cases "digestOfJob e jb w1")
  have d': "(case job_type jb of
        InstantDigest projectId updateId subscriberIds \<Rightarrow>
          processInstantDigest e projectId updateId subscriberIds w1
      | DailyDigest projectId \<Rightarrow> processScheduledDigest e projectId ''daily'' w1
      | WeeklyDigest projectId \<Rightarrow> processScheduledDigest e projectId ''weekly'' w1
      | OtherJob t \<Rightarrow> (Threw (UnknownJobType t), w1)) = (r2, w2)"
    using d unfolding digestOfJob_def .
  obtain w3 where mc: "markJobCompleted e (job_id jb) w2 = (Returned (), w3)"
    using up by (simp add: markJobCompleted_def)
  obtain w4 where mf: "markJobFailed e (job_id jb) w2 = (Returned (), w4)"
    using markJobFailed_returns[OF up, of "job_id jb" w2]
    by (cases "markJobFailed e (job_id jb) w2") simp
  show ?thesis
    unfolding w1_def[symmetric] d
    by (cases r2) (simp_all add: processJob_def mp d' mc mf Let_def)
qed

lemma processJob_only_advances:
  assumes ids: "distinct (map sub_id (subscriptions w))"
  shows "only_advances w (snd (processJob e jb w))"
proof (cases "db_up e")
  case False
  then show ?thesis by (simp add: processJob_down only_advances_refl)
next
  case up: True
  let ?w1 = "snd (markJobProcessing e (job_id jb) w)"
  have a1: "only_advances w ?w1"
    by (rule frame_only_advances_eq[OF markJobProcessing_frame])
  have ids1: "distinct (map sub_id (subscriptions ?w1))"
    using ids by (simp add: markJobProcessing_frame)
  have a2: "only_advances ?w1 (snd (digestOfJob e jb ?w1))"
    unfolding digestOfJob_def
    by (cases "job_type jb")
       (simp_all add: processInstantDigest_only_advances[OF ids1]
          processScheduledDigest_only_advances[OF ids1] only_advances_refl)
  have a12: "only_advances w (snd (digestOfJob e jb ?w1))"
    by (rule only_advances_trans[OF a1 a2])
  have a3: "only_advances w (snd (markJobCompleted e (job_id jb) (snd (digestOfJob e jb ?w1))))"
    by (rule only_advances_trans[OF a12 frame_only_advances_eq[OF markJobCompleted_frame]])
  have a4: "only_advances w (snd (markJobFailed e (job_id jb) (snd (digestOfJob e jb ?w1))))"
    by (rule only_advances_trans[OF a12 frame_only_advances[OF markJobFailed_frame]])
  show ?thesis
    using a3 a4 unfolding processJob_up[OF up]
    by (cases "digestOfJob e jb ?w1") (simp split: outcome.splits)
qed

lemma processAll_append: "processAll (ps1 @ ps2) w = processAll ps2 (processAll ps1 w)"
  by (induction ps1 arbitrary: w) auto

lemma processAll_only_advances:
  "distinct (map sub_id (subscriptions w)) \<Longrightarrow> only_advances w (processAll ps w)"
proof (induction ps arbitrary: w)
  case Nil
  show ?case by (simp add: only_advances_refl)
next
  case (Cons p ps)
  obtain e jb where p: "p = (e, jb)" by (cases p)
  let ?w1 = "snd (processJob e jb w)"
  have a: "only_advances w ?w1" by (rule processJob_only_advances[OF Cons.prems])
  have "distinct (map sub_id (subscriptions ?w1))"
    using Cons.prems only_advances_ids[OF a] by simp
  then have "only_advances ?w1 (processAll ps ?w1)" by (rule Cons.IH)
  with a show ?case unfolding p by (simp add: only_advances_trans)
qed

lemma kept_or_advanced_watermark:
  assumes "kept_or_advanced w w' r r'" and "watermark_le (lastSentAt r) (Some (clock w))"
    and "clock w \<le> clock w'"
  shows "watermark_le (lastSentAt r) (lastSentAt r') \<and> watermark_le (lastSentAt r') (Some (clock w'))"
  using assms
  by (cases "lastSentAt r"; cases "lastSentAt r'") (auto simp: kept_or_advanced_def)

lemma only_advances_monotone:
  assumes a: "only_advances w w'" and n: "not_in_future w"
  shows "not_in_future w' \<and>
         list_all2 (\<lambda>r r'. watermark_le (lastSentAt r) (lastSentAt r') \<and> kept_or_advanced w w' r r')
           (subscriptions w) (subscriptions w')"
proof -
  have c: "clock w \<le> clock w'" and rows: "list_all2 (kept_or_advanced w w') (subscriptions w) (subscriptions w')"
    using a by (simp_all add: only_advances_def)
  have both: "list_all2 (\<lambda>r r'. (watermark_le (lastSentAt r) (lastSentAt r') \<and> kept_or_advanced w w' r r')
                   \<and> watermark_le (lastSentAt r') (Some (clock w')))
           (subscriptions w) (subscriptions w')"
    using rows
  proof (rule list.rel_mono_strong)
    fix r r' assume r: "r \<in> set (subscriptions w)" and k: "kept_or_advanced w w' r r'"
    have "watermark_le (lastSentAt r) (Some (clock w))"
      using n r by (simp add: not_in_future_def list_all_iff)
    from kept_or_advanced_watermark[OF k this c] k
    show "(watermark_le (lastSentAt r) (lastSentAt r') \<and> kept_or_advanced w w' r r')
                   \<and> watermark_le (lastSentAt r') (Some (clock w'))" by simp
  qed
  have "\<forall>r'\<in>set (subscriptions w'). watermark_le (lastSentAt r') (Some (clock w'))"
  proof
    fix r' assume "r' \<in> set (subscriptions w')"
    then obtain i where i: "i < length (subscriptions w')" "subscriptions w' ! i = r'"
      by (auto simp: in_set_conv_nth)
    with both show "watermark_le (lastSentAt r') (Some (clock w'))"
      by (auto simp: list_all2_conv_all_nth)
  qed
  then have "not_in_future w'" by (simp add: not_in_future_def list_all_iff)
  moreover have "list_all2 (\<lambda>r r'. watermark_le (lastSentAt r) (lastSentAt r') \<and> kept_or_advanced w w' r r')
           (subscriptions w) (subscriptions w')"
    using both by (rule list_all2_mono) simp
  ultimately show ?thesis by simp
qed

text \<open>
  C7. Any sequence of job-processing passes, from a world in which the subscription ids
  are distinct and no watermark lies after the clock: between any two points of the
  sequence, row by row, the watermark has not decreased, and a row that differs differs
  only in its watermark, which is a time read from the clock between the two points,
  a message to the row's address having been reported as sent between them.
\<close>

theorem watermark_never_decreases:
  assumes ids: "distinct (map sub_id (subscriptions w))" and n: "not_in_future w"
  shows "list_all2 (\<lambda>r r'. watermark_le (lastSentAt r) (lastSentAt r')
                          \<and> kept_or_advanced (processAll ps1 w) (processAll (ps1 @ ps2) w) r r')
           (subscriptions (processAll ps1 w)) (subscriptions (processAll (ps1 @ ps2) w))"
proof -
  let ?w1 = "processAll ps1 w"
  have a1: "only_advances w ?w1" by (rule processAll_only_advances[OF ids])
  have n1: "not_in_future ?w1" using only_advances_monotone[OF a1 n] by simp
  have ids1: "distinct (map sub_id (subscriptions ?w1))"
    using ids only_advances_ids[OF a1] by simp
  have a2: "only_advances ?w1 (processAll ps2 ?w1)" by (rule processAll_only_advances[OF ids1])
  show ?thesis
    using only_advances_monotone[OF a2 n1] by (simp add: processAll_append)
qed

theorem watermark_never_decreases_witness:
  "distinct (map sub_id (subscriptions demo_world)) \<and> not_in_future demo_world
   \<and> map lastSentAt (subscriptions demo_world)
       = [Some 1698963200000, None, Some 1699827100000, None, Some 1699700000000]
   \<and> map lastSentAt (subscriptions (processAll [(demo_env, jobQueue demo_world ! 0)] demo_world))
       = [Some 1699827200002, None, Some 1699827100000, None, Some 1699827200003]
   \<and> map lastSentAt
        (subscriptions (processAll ([(demo_env, jobQueue demo_world ! 0)]
                          @ [(demo_env, demo_instant_job), (offline_env, jobQueue demo_world ! 0),
                             (frozen_env, jobQueue demo_world ! 0)]) demo_world))
       = [Some 1699827200004, None, Some 1699827100000, Some 1699827200004, Some 1699827200003]
   \<and> list_all2 (\<lambda>r r'. watermark_le (lastSentAt r) (lastSentAt r'))
        (subscriptions (processAll [(demo_env, jobQueue demo_world ! 0)] demo_world))
        (subscriptions (processAll ([(demo_env, jobQueue demo_world ! 0)]
                          @ [(demo_env, demo_instant_job), (offline_env, jobQueue demo_world ! 0),
                             (frozen_env, jobQueue demo_world ! 0)]) demo_world))"
proof -
  have h1: "distinct (map sub_id (subscriptions demo_world))" by code_simp
  have h2: "not_in_future demo_world" by code_simp
  have a: "map lastSentAt (subscriptions demo_world)
       = [Some 1698963200000, None, Some 1699827100000, None, Some 1699700000000]" by code_simp
  have b: "map lastSentAt (subscriptions (processAll [(demo_env, jobQueue demo_world ! 0)] demo_world))
       = [Some 1699827200002, None, Some 1699827100000, None, Some 1699827200003]" by code_simp
  have c: "map lastSentAt
        (subscriptions (processAll ([(demo_env, jobQueue demo_world ! 0)]
                          @ [(demo_env, demo_instant_job), (offline_env, jobQueue demo_world ! 0),
                             (frozen_env, jobQueue demo_world ! 0)]) demo_world))
       = [Some 1699827200004, None, Some 1699827100000, Some 1699827200004, Some 1699827200003]"
    by code_simp
  have "list_all2 (\<lambda>r r'. watermark_le (lastSentAt r) (lastSentAt r'))
        (subscriptions (processAll [(demo_env, jobQueue demo_world ! 0)] demo_world))
        (subscriptions (processAll ([(demo_env, jobQueue demo_world ! 0)]
                          @ [(demo_env, demo_instant_job), (offline_env, jobQueue demo_world ! 0),
                             (frozen_env, jobQueue demo_world ! 0)]) demo_world))"
    using watermark_never_decreases [OF h1 h2, of "[(demo_env, jobQueue demo_world ! 0)]"
        "[(demo_env, demo_instant_job), (offline_env, jobQueue demo_world ! 0),
          (frozen_env, jobQueue demo_world ! 0)]"]
    by (rule list_all2_mono) simp
  then show ?thesis
    using h1 h2 a b c by simp
qed

section \<open>Scheduler: the last run of a cadence\<close>

text \<open>
  The enqueue and purge calls return exactly when the database answers; each block of
  the tick sets its own last run, and only after a call that returned.
\<close>

lemma enqueueJob_up:
  "db_up e \<Longrightarrow> \<exists>j. fst (enqueueJob e ty sf w) = Returned j"
  by (simp add: enqueueJob_def Let_def split_beta)

lemma enqueueJob_down:
  "\<not> db_up e \<Longrightarrow> fst (enqueueJob e ty sf w) = Threw DbUnavailable"
  by (simp add: enqueueJob_def Let_def split_beta)

lemma enqueueEach_up:
  "db_up e \<Longrightarrow> fst (enqueueEach e ty ps w) = Returned ()"
proof (induction ps arbitrary: w)
  case Nil
  then show ?case by simp
next
  case (Cons p ps)
  from enqueueJob_up[OF Cons.prems] obtain j where "fst (enqueueJob e (ty p) None w) = Returned j"
    by blast
  then obtain w1 where "enqueueJob e (ty p) None w = (Returned j, w1)"
    by (cases "enqueueJob e (ty p) None w") simp
  with Cons show ?case by simp
qed

lemma queueDailyDigests_outcome:
  "fst (queueDailyDigests e w) = (if db_up e then Returned () else Threw DbUnavailable)"
  by (simp add: queueDailyDigests_def Let_def enqueueEach_up)

lemma queueWeeklyDigests_outcome:
  "fst (queueWeeklyDigests e w) = (if db_up e then Returned () else Threw DbUnavailable)"
  by (simp add: queueWeeklyDigests_def Let_def enqueueEach_up)

lemma cleanupOldJobs_outcome:
  "fst (cleanupOldJobs e d w) = (if db_up e then Returned (length (filter (purgeable (fst (new_Date e w) - d * 24 * 60 * 60 * 1000)) (jobQueue w))) else Threw DbUnavailable)"
  by (simp add: cleanupOldJobs_def Let_def split_beta new_Date_def)

lemma tickDailyDigest_state:
  "fst (tickDailyDigest e st w) =
     (if fst (shouldRunDailyDigest e st w) \<and> db_up e
      then st\<lparr>dailyDigest := Some (clock (snd (tickDailyDigest e st w)))\<rparr> else st)"
  using queueDailyDigests_outcome[of e "snd (shouldRunDailyDigest e st w)"]
  by (auto simp: tickDailyDigest_def Let_def split_beta new_Date_def split: outcome.splits prod.splits)

lemma tickWeeklyDigest_state:
  "fst (tickWeeklyDigest e st w) =
     (if fst (shouldRunWeeklyDigest e st w) \<and> db_up e
      then st\<lparr>weeklyDigest := Some (clock (snd (tickWeeklyDigest e st w)))\<rparr> else st)"
  using queueWeeklyDigests_outcome[of e "snd (shouldRunWeeklyDigest e st w)"]
  by (auto simp: tickWeeklyDigest_def Let_def split_beta new_Date_def split: outcome.splits prod.splits)

lemma tickCleanup_state:
  "fst (tickCleanup e st w) =
     (if fst (shouldRunCleanup e st w) \<and> db_up e
      then st\<lparr>cleanup := Some (clock (snd (tickCleanup e st w)))\<rparr> else st)"
  using cleanupOldJobs_outcome[of e 7 "snd (shouldRunCleanup e st w)"]
  by (auto simp: tickCleanup_def Let_def split_beta new_Date_def split: outcome.splits prod.splits if_splits)

lemma setUTCHours_same_day:
  "a div 86400000 = b div 86400000 \<Longrightarrow> setUTCHours a h = setUTCHours b h"
  by (simp add: setUTCHours_def minus_mod_eq_mult_div)

lemma getUTCDay_same_day:
  "a div 86400000 = b div 86400000 \<Longrightarrow> getUTCDay a = getUTCDay b"
  by (simp add: getUTCDay_def)

lemma shouldRunDailyDigest_still_due:
  assumes "fst (shouldRunDailyDigest e st w)" and "dailyDigest st2 = dailyDigest st"
   and "fst (new_Date e w) \<le> fst (new_Date e2 w2)"
   and "fst (new_Date e2 w2) div 86400000 = fst (new_Date e w) div 86400000"
  shows "fst (shouldRunDailyDigest e2 st2 w2)"
  using assms setUTCHours_same_day[OF assms(4), of DAILY_DIGEST_HOUR]
  by (auto simp: shouldRunDailyDigest_def Let_def split_beta split: if_splits option.splits)

lemma shouldRunWeeklyDigest_still_due:
  assumes "fst (shouldRunWeeklyDigest e st w)" and "weeklyDigest st2 = weeklyDigest st"
   and "fst (new_Date e w) \<le> fst (new_Date e2 w2)"
   and "fst (new_Date e2 w2) div 86400000 = fst (new_Date e w) div 86400000"
  shows "fst (shouldRunWeeklyDigest e2 st2 w2)"
  using assms setUTCHours_same_day[OF assms(4), of WEEKLY_DIGEST_HOUR] getUTCDay_same_day[OF assms(4)]
  by (auto simp: shouldRunWeeklyDigest_def Let_def split_beta split: if_splits option.splits)

lemma shouldRunCleanup_still_due:
  assumes "fst (shouldRunCleanup e st w)" and "cleanup st2 = cleanup st"
   and "fst (new_Date e w) \<le> fst (new_Date e2 w2)"
   and "fst (new_Date e2 w2) div 86400000 = fst (new_Date e w) div 86400000"
  shows "fst (shouldRunCleanup e2 st2 w2)"
  using assms setUTCHours_same_day[OF assms(4), of CLEANUP_HOUR]
  by (auto simp: shouldRunCleanup_def Let_def split_beta split: if_splits option.splits)

text \<open>
  C4, as amended. In a scheduler tick, the last run of a cadence becomes the time read
  right after its enqueue or purge call when the cadence is due and the call returns;
  it keeps the value it had when the cadence is not due or when the call throws. After
  a call that threw, the cadence is due again at any later reading of the clock on the
  same UTC day, so a later tick repeats the call.
\<close>

theorem runSchedulerTick_last_run:
  assumes run: "runSchedulerTick e st w = (r, st', w')"
    and d: "tickDailyDigest e st w = (st1, w1)"
    and wk: "tickWeeklyDigest e st1 w1 = (st2, w2)"
    and c: "tickCleanup e st2 w2 = (st3, w3)"
  shows "dailyDigest st' =
           (if fst (shouldRunDailyDigest e st w)
               \<and> fst (queueDailyDigests e (snd (shouldRunDailyDigest e st w))) = Returned ()
            then Some (clock w1) else dailyDigest st)
       \<and> weeklyDigest st' =
           (if fst (shouldRunWeeklyDigest e st1 w1)
               \<and> fst (queueWeeklyDigests e (snd (shouldRunWeeklyDigest e st1 w1))) = Returned ()
            then Some (clock w2) else weeklyDigest st)
       \<and> cleanup st' =
           (if fst (shouldRunCleanup e st2 w2)
               \<and> (\<exists>n. fst (cleanupOldJobs e 7 (snd (shouldRunCleanup e st2 w2))) = Returned n)
            then Some (clock w3) else cleanup st)
       \<and> (fst (shouldRunDailyDigest e st w)
            \<and> fst (queueDailyDigests e (snd (shouldRunDailyDigest e st w))) \<noteq> Returned ()
            \<and> same_day_later (fst (new_Date e w)) (fst (new_Date e_next w_next))
          \<longrightarrow> fst (shouldRunDailyDigest e_next st' w_next))
       \<and> (fst (shouldRunWeeklyDigest e st1 w1)
            \<and> fst (queueWeeklyDigests e (snd (shouldRunWeeklyDigest e st1 w1))) \<noteq> Returned ()
            \<and> same_day_later (fst (new_Date e w1)) (fst (new_Date e_next w_next))
          \<longrightarrow> fst (shouldRunWeeklyDigest e_next st' w_next))
       \<and> (fst (shouldRunCleanup e st2 w2)
            \<and> (\<forall>n. fst (cleanupOldJobs e 7 (snd (shouldRunCleanup e st2 w2))) \<noteq> Returned n)
            \<and> same_day_later (fst (new_Date e w2)) (fst (new_Date e_next w_next))
          \<longrightarrow> fst (shouldRunCleanup e_next st' w_next))"
proof -
  have st': "st' = st3" using run d wk c by (simp add: runSchedulerTick_def split_beta)
  have s1: "st1 = (if fst (shouldRunDailyDigest e st w) \<and> db_up e then st\<lparr>dailyDigest := Some (clock w1)\<rparr> else st)"
    using tickDailyDigest_state[of e st w] unfolding d fst_conv snd_conv .
  have s2: "st2 = (if fst (shouldRunWeeklyDigest e st1 w1) \<and> db_up e then st1\<lparr>weeklyDigest := Some (clock w2)\<rparr> else st1)"
    using tickWeeklyDigest_state[of e st1 w1] unfolding wk fst_conv snd_conv .
  have s3: "st3 = (if fst (shouldRunCleanup e st2 w2) \<and> db_up e then st2\<lparr>cleanup := Some (clock w3)\<rparr> else st2)"
    using tickCleanup_state[of e st2 w2] unfolding c fst_conv snd_conv .
  have o1: "(fst (queueDailyDigests e (snd (shouldRunDailyDigest e st w))) = Returned ()) = db_up e"
    by (simp add: queueDailyDigests_outcome)
  have o2: "(fst (queueWeeklyDigests e (snd (shouldRunWeeklyDigest e st1 w1))) = Returned ()) = db_up e"
    by (simp add: queueWeeklyDigests_outcome)
  have o3: "(\<exists>n. fst (cleanupOldJobs e 7 (snd (shouldRunCleanup e st2 w2))) = Returned n) = db_up e"
    by (simp add: cleanupOldJobs_outcome)
  have o3': "(\<forall>n. fst (cleanupOldJobs e 7 (snd (shouldRunCleanup e st2 w2))) \<noteq> Returned n) = (\<not> db_up e)"
    using o3 by blast
  have a: "dailyDigest st3 = dailyDigest st1" "weeklyDigest st3 = weeklyDigest st2"
     "dailyDigest st2 = dailyDigest st1" "weeklyDigest st1 = weeklyDigest st" "cleanup st2 = cleanup st"
     "cleanup st1 = cleanup st"
    using s1 s2 s3 by (simp_all split: if_splits)
  have p1: "dailyDigest st3 = (if fst (shouldRunDailyDigest e st w) \<and> db_up e then Some (clock w1) else dailyDigest st)"
    using a s1 by (simp split: if_splits)
  have p2: "weeklyDigest st3 = (if fst (shouldRunWeeklyDigest e st1 w1) \<and> db_up e then Some (clock w2) else weeklyDigest st)"
    using a s2 by (simp split: if_splits)
  have p3: "cleanup st3 = (if fst (shouldRunCleanup e st2 w2) \<and> db_up e then Some (clock w3) else cleanup st)"
    using a s3 by (simp split: if_splits)
  have q1: "fst (shouldRunDailyDigest e_next st3 w_next)"
    if h: "fst (shouldRunDailyDigest e st w)" "\<not> db_up e"
       "same_day_later (fst (new_Date e w)) (fst (new_Date e_next w_next))"
  proof (rule shouldRunDailyDigest_still_due[of e st w])
    show "fst (shouldRunDailyDigest e st w)" by (rule h(1))
    show "dailyDigest st3 = dailyDigest st" using p1 h(2) by simp
    show "fst (new_Date e w) \<le> fst (new_Date e_next w_next)"
      using h(3) by (simp add: same_day_later_def)
    show "fst (new_Date e_next w_next) div 86400000 = fst (new_Date e w) div 86400000"
      using h(3) by (simp add: same_day_later_def)
  qed
  have q2: "fst (shouldRunWeeklyDigest e_next st3 w_next)"
    if h: "fst (shouldRunWeeklyDigest e st1 w1)" "\<not> db_up e"
       "same_day_later (fst (new_Date e w1)) (fst (new_Date e_next w_next))"
  proof (rule shouldRunWeeklyDigest_still_due[of e st1 w1])
    show "fst (shouldRunWeeklyDigest e st1 w1)" by (rule h(1))
    show "weeklyDigest st3 = weeklyDigest st1" using p2 h(2) a(4) by simp
    show "fst (new_Date e w1) \<le> fst (new_Date e_next w_next)"
      using h(3) by (simp add: same_day_later_def)
    show "fst (new_Date e_next w_next) div 86400000 = fst (new_Date e w1) div 86400000"
      using h(3) by (simp add: same_day_later_def)
  qed
  have q3: "fst (shouldRunCleanup e_next st3 w_next)"
    if h: "fst (shouldRunCleanup e st2 w2)" "\<not> db_up e"
       "same_day_later (fst (new_Date e w2)) (fst (new_Date e_next w_next))"
  proof (rule shouldRunCleanup_still_due[of e st2 w2])
    show "fst (shouldRunCleanup e st2 w2)" by (rule h(1))
    show "cleanup st3 = cleanup st2" using p3 h(2) a(5) by simp
    show "fst (new_Date e w2) \<le> fst (new_Date e_next w_next)"
      using h(3) by (simp add: same_day_later_def)
    show "fst (new_Date e_next w_next) div 86400000 = fst (new_Date e w2) div 86400000"
      using h(3) by (simp add: same_day_later_def)
  qed
  show ?thesis
    unfolding st' o1 o2 o3 o3'
  proof (intro conjI impI)
    show "dailyDigest st3 = (if fst (shouldRunDailyDigest e st w) \<and> db_up e then Some (clock w1) else dailyDigest st)"
      by (rule p1)
    show "weeklyDigest st3 = (if fst (shouldRunWeeklyDigest e st1 w1) \<and> db_up e then Some (clock w2) else weeklyDigest st)"
      by (rule p2)
    show "cleanup st3 = (if fst (shouldRunCleanup e st2 w2) \<and> db_up e then Some (clock w3) else cleanup st)"
      by (rule p3)
  next
    assume "fst (shouldRunDailyDigest e st w) \<and> \<not> db_up e
           \<and> same_day_later (fst (new_Date e w)) (fst (new_Date e_next w_next))"
    then show "fst (shouldRunDailyDigest e_next st3 w_next)" using q1 by simp
  next
    assume "fst (shouldRunWeeklyDigest e st1 w1) \<and> \<not> db_up e
           \<and> same_day_later (fst (new_Date e w1)) (fst (new_Date e_next w_next))"
    then show "fst (shouldRunWeeklyDigest e_next st3 w_next)" using q2 by simp
  next
    assume "fst (shouldRunCleanup e st2 w2) \<and> \<not> db_up e
           \<and> same_day_later (fst (new_Date e w2)) (fst (new_Date e_next w_next))"
    then show "fst (shouldRunCleanup e_next st3 w_next)" using q3 by simp
  qed
qed

lemma triple_collapse: "x = (fst x, fst (snd x), snd (snd x))"
  by simp

theorem runSchedulerTick_last_run_witness:
  "fst (shouldRunDailyDigest demo_env fresh_schedule demo_world)
   \<and> fst (queueDailyDigests demo_env (snd (shouldRunDailyDigest demo_env fresh_schedule demo_world))) = Returned ()
   \<and> dailyDigest (fst (snd (runSchedulerTick demo_env fresh_schedule demo_world))) = Some 1699827200004
   \<and> fst (shouldRunDailyDigest offline_env fresh_schedule demo_world)
   \<and> fst (queueDailyDigests offline_env (snd (shouldRunDailyDigest offline_env fresh_schedule demo_world)))
        \<noteq> Returned ()
   \<and> dailyDigest (fst (snd (runSchedulerTick offline_env fresh_schedule demo_world))) = None
   \<and> same_day_later (fst (new_Date offline_env demo_world))
        (fst (new_Date demo_env (snd (snd (runSchedulerTick offline_env fresh_schedule demo_world)))))
   \<and> fst (shouldRunDailyDigest demo_env (fst (snd (runSchedulerTick offline_env fresh_schedule demo_world)))
            (snd (snd (runSchedulerTick offline_env fresh_schedule demo_world))))"
proof -
  have due: "fst (shouldRunDailyDigest demo_env fresh_schedule demo_world)" by code_simp
  have ok: "fst (queueDailyDigests demo_env (snd (shouldRunDailyDigest demo_env fresh_schedule demo_world))) = Returned ()"
    by code_simp
  have clk: "clock (snd (tickDailyDigest demo_env fresh_schedule demo_world)) = 1699827200004"
    by code_simp
  have due_off: "fst (shouldRunDailyDigest offline_env fresh_schedule demo_world)" by code_simp
  have threw: "fst (queueDailyDigests offline_env (snd (shouldRunDailyDigest offline_env fresh_schedule demo_world)))
       \<noteq> Returned ()" by code_simp
  have none: "dailyDigest fresh_schedule = None" by code_simp
  have later: "same_day_later (fst (new_Date offline_env demo_world))
        (fst (new_Date demo_env (snd (snd (runSchedulerTick offline_env fresh_schedule demo_world)))))"
    by code_simp
  note online = runSchedulerTick_last_run [OF triple_collapse surjective_pairing surjective_pairing
      surjective_pairing, of demo_env fresh_schedule demo_world]
  note offline = runSchedulerTick_last_run [OF triple_collapse surjective_pairing surjective_pairing
      surjective_pairing, of offline_env fresh_schedule demo_world,
      where e_next = demo_env
        and w_next = "snd (snd (runSchedulerTick offline_env fresh_schedule demo_world))"]
  have daily: "dailyDigest (fst (snd (runSchedulerTick demo_env fresh_schedule demo_world))) = Some 1699827200004"
    using online [THEN conjunct1] due ok clk by simp
  have kept: "dailyDigest (fst (snd (runSchedulerTick offline_env fresh_schedule demo_world))) = None"
    using offline [THEN conjunct1] threw none by simp
  have again: "fst (shouldRunDailyDigest demo_env (fst (snd (runSchedulerTick offline_env fresh_schedule demo_world)))
            (snd (snd (runSchedulerTick offline_env fresh_schedule demo_world))))"
    by (rule mp [OF offline [THEN conjunct2, THEN conjunct2, THEN conjunct2, THEN conjunct1]])
       (intro conjI due_off threw later)
  show ?thesis
    by (intro conjI due ok daily due_off threw kept later again)
qed

text \<open>
  C4 as stated fails: in the example world with the database not answering, the daily
  cadence is due, \<^verbatim>\<open>queueDailyDigests\<close> throws, and after the tick the last run of
  the daily cadence is still \<^verbatim>\<open>null\<close>.
\<close>

theorem runSchedulerTick_last_run_counterexample:
  "fst (shouldRunDailyDigest offline_env fresh_schedule demo_world)
   \<and> fst (queueDailyDigests offline_env (snd (shouldRunDailyDigest offline_env fresh_schedule demo_world)))
       = Threw DbUnavailable
   \<and> dailyDigest (fst (snd (runSchedulerTick offline_env fresh_schedule demo_world))) = None
   \<and> clock (snd (snd (runSchedulerTick offline_env fresh_schedule demo_world))) = 1699827200005"
  by code_simp

section \<open>Subscribing again\<close>

lemma emailRegex_nonempty: "emailRegex_test em \<Longrightarrow> em \<noteq> []"
  by (auto simp: emailRegex_test_def)

text \<open>
  C9. A valid subscribe request for a project and an address (lower-cased and trimmed)
  that already have a subscription row, the database answering: the answer is 200, the
  frequency of the existing row becomes the requested one (\<^verbatim>\<open>instant\<close> when the
  request names none of the three frequencies), no row is added, every row keeps its
  project and address, and, the pairs of project and address being unique before,
  exactly one row holds the pair afterwards.
\<close>

theorem subscribe_existing_updates_row:
  assumes up: "db_up e"
    and valid: "emailRegex_test em"
    and proj: "find (\<lambda>p. magicLinkToken p = Some token) (projects w) = Some proj"
    and ex: "find (\<lambda>s. sub_projectId s = proj_id proj \<and> email s = trim (toLowerCase em)) (subscriptions w) = Some x"
    and run: "subscribe e token (Some em) fq w = (resp, w')"
  shows "resp = Response 200 ''Subscription updated successfully''
       \<and> subscriptions w' = map (\<lambda>s. if sub_id s = sub_id x then s\<lparr>frequency := 
              (case fq of None \<Rightarrow> ''instant'' | Some f \<Rightarrow> if f \<in> set validFrequencies then f else ''instant'')\<rparr> else s) (subscriptions w)
       \<and> length (subscriptions w') = length (subscriptions w)
       \<and> map (\<lambda>s. (sub_projectId s, email s)) (subscriptions w') = map (\<lambda>s. (sub_projectId s, email s)) (subscriptions w)
       \<and> (distinct (map (\<lambda>s. (sub_projectId s, email s)) (subscriptions w)) \<longrightarrow>
            length (filter (\<lambda>s. sub_projectId s = proj_id proj \<and> email s = trim (toLowerCase em)) (subscriptions w')) = 1)"
proof -
  let ?nf = "(case fq of None \<Rightarrow> ''instant'' | Some f \<Rightarrow> if f \<in> set validFrequencies then f else ''instant'')"
  let ?key = "\<lambda>s. (sub_projectId s, email s)"
  have ne: "em \<noteq> []" using valid by (rule emailRegex_nonempty)
  have nf: "(case fq of None \<Rightarrow> ''instant'' | Some f \<Rightarrow> if f \<noteq> [] \<and> f \<in> set validFrequencies then f else ''instant'') = ?nf"
    by (auto simp: validFrequencies_def split: option.splits)
  have res: "resp = Response 200 ''Subscription updated successfully''"
    and subs: "subscriptions w' = map (\<lambda>s. if sub_id s = sub_id x then s\<lparr>frequency := ?nf\<rparr> else s) (subscriptions w)"
    using run up valid ne proj ex unfolding subscribe_def nf
    by (auto simp: Let_def sendSubscriptionConfirmed_def sendEmail_def split: if_splits)
  have keys: "map ?key (subscriptions w') = map ?key (subscriptions w)"
    by (simp add: subs)
  have xin: "x \<in> set (subscriptions w)" and xkey: "?key x = (proj_id proj, trim (toLowerCase em))"
    using ex by (auto simp: find_Some_iff)
  have cnt: "length (filter (\<lambda>s. sub_projectId s = proj_id proj \<and> email s = trim (toLowerCase em)) (subscriptions w')) = 1"
    if d: "distinct (map ?key (subscriptions w))"
  proof -
    have "length (filter (\<lambda>s. ?key s = ?key x) (subscriptions w')) = length (filter (\<lambda>k. k = ?key x) (map ?key (subscriptions w')))"
      by (simp add: filter_map comp_def)
    also have "\<dots> = length (filter (\<lambda>s. ?key s = ?key x) (subscriptions w))"
      unfolding keys by (simp add: filter_map comp_def)
    also have "\<dots> = 1" using filter_key_distinct[OF d xin] by simp
    finally show ?thesis using xkey by simp
  qed
  show ?thesis using res subs keys cnt by simp
qed

theorem subscribe_existing_updates_row_witness:
  "db_up demo_env \<and> emailRegex_test ''D@x.com''
   \<and> find (\<lambda>p. magicLinkToken p = Some ''tok'') (projects demo_world) = Some (projects demo_world ! 0)
   \<and> find (\<lambda>s. sub_projectId s = proj_id (projects demo_world ! 0) \<and> email s = trim (toLowerCase ''D@x.com''))
        (subscriptions demo_world) = Some (subscriptions demo_world ! 3)
   \<and> distinct (map (\<lambda>s. (sub_projectId s, email s)) (subscriptions demo_world))
   \<and> fst (subscribe demo_env ''tok'' (Some ''D@x.com'') (Some ''daily'') demo_world)
       = Response 200 ''Subscription updated successfully''
   \<and> map (\<lambda>s. (sub_id s, email s, frequency s)) (subscriptions demo_world)
       = [(10, ''a@x.com'', ''daily''), (11, ''b@x.com'', ''daily''), (12, ''c@x.com'', ''daily''),
          (13, ''d@x.com'', ''instant''), (14, ''e@x.com'', ''daily'')]
   \<and> map (\<lambda>s. (sub_id s, email s, frequency s))
        (subscriptions (snd (subscribe demo_env ''tok'' (Some ''D@x.com'') (Some ''daily'') demo_world)))
       = [(10, ''a@x.com'', ''daily''), (11, ''b@x.com'', ''daily''), (12, ''c@x.com'', ''daily''),
          (13, ''d@x.com'', ''daily''), (14, ''e@x.com'', ''daily'')]
   \<and> length (filter (\<lambda>s. sub_projectId s = 1 \<and> email s = ''d@x.com'')
        (subscriptions (snd (subscribe demo_env ''tok'' (Some ''D@x.com'') (Some ''daily'') demo_world)))) = 1"
proof -
  have up: "db_up demo_env" by code_simp
  have valid: "emailRegex_test ''D@x.com''" by code_simp
  have pr: "find (\<lambda>p. magicLinkToken p = Some ''tok'') (projects demo_world) = Some (projects demo_world ! 0)"
    by code_simp
  have ex: "find (\<lambda>s. sub_projectId s = proj_id (projects demo_world ! 0) \<and> email s = trim (toLowerCase ''D@x.com''))
        (subscriptions demo_world) = Some (subscriptions demo_world ! 3)" by code_simp
  have keys: "distinct (map (\<lambda>s. (sub_projectId s, email s)) (subscriptions demo_world))" by code_simp
  have r: "fst (subscribe demo_env ''tok'' (Some ''D@x.com'') (Some ''daily'') demo_world)
       = Response 200 ''Subscription updated successfully''" by code_simp
  have before: "map (\<lambda>s. (sub_id s, email s, frequency s)) (subscriptions demo_world)
       = [(10, ''a@x.com'', ''daily''), (11, ''b@x.com'', ''daily''), (12, ''c@x.com'', ''daily''),
          (13, ''d@x.com'', ''instant''), (14, ''e@x.com'', ''daily'')]" by code_simp
  have after: "map (\<lambda>s. (sub_id s, email s, frequency s))
        (subscriptions (snd (subscribe demo_env ''tok'' (Some ''D@x.com'') (Some ''daily'') demo_world)))
       = [(10, ''a@x.com'', ''daily''), (11, ''b@x.com'', ''daily''), (12, ''c@x.com'', ''daily''),
          (13, ''d@x.com'', ''daily''), (14, ''e@x.com'', ''daily'')]" by code_simp
  have one: "length (filter (\<lambda>s. sub_projectId s = 1 \<and> email s = ''d@x.com'')
        (subscriptions (snd (subscribe demo_env ''tok'' (Some ''D@x.com'') (Some ''daily'') demo_world)))) = 1"
    by code_simp
  from subscribe_existing_updates_row [OF up valid pr ex surjective_pairing, of "Some ''daily''"]
  show ?thesis
    using up valid pr ex keys r before after one by simp
qed

end
